theory Spec2Isabelle
  imports Complex_Main "HOL-Library.AList" "HOL-Library.Word"
begin

section \<open>Text\<close>

text \<open>
  A Python \<open>str\<close> is a sequence of Unicode code points. It is modelled as a list of
  natural numbers (the code points), so that \<open>\uXXXX\<close> escapes and the Unicode
  whitespace that \<open>str.strip\<close> removes are represented as they are. \<open>str\<close> turns
  an ASCII literal into such a list.
\<close>

type_synonym pystr = "nat list"

definition str :: "string \<Rightarrow> pystr" where
  "str cs = map of_char cs"

text \<open>\<open>s.startswith(p)\<close>, with the prefix as first argument.\<close>

fun startswith :: "pystr \<Rightarrow> pystr \<Rightarrow> bool" where
  "startswith [] s = True"
| "startswith (p # ps) [] = False"
| "startswith (p # ps) (c # cs) = (p = c \<and> startswith ps cs)"

text \<open>
  The characters for which \<open>str.isspace\<close> holds: what \<open>str.strip()\<close> removes and
  what \<open>\s\<close> matches in a \<open>str\<close> pattern.
\<close>

definition isspace :: "nat \<Rightarrow> bool" where
  "isspace c \<longleftrightarrow>
     (9 \<le> c \<and> c \<le> 13) \<or> (28 \<le> c \<and> c \<le> 32) \<or> c = 133 \<or> c = 160 \<or> c = 5760 \<or>
     (8192 \<le> c \<and> c \<le> 8202) \<or> c = 8232 \<or> c = 8233 \<or> c = 8239 \<or> c = 8287 \<or> c = 12288"

definition lstrip :: "pystr \<Rightarrow> pystr" where
  "lstrip s = dropWhile isspace s"

definition rstrip :: "pystr \<Rightarrow> pystr" where
  "rstrip s = rev (dropWhile isspace (rev s))"

definition strip :: "pystr \<Rightarrow> pystr" where
  "strip s = rstrip (lstrip s)"

section \<open>Exceptions\<close>

text \<open>
  A Python exception is a value: the two exception classes of \<open>gpu_client.py\<close> and
  one constructor for every other exception (\<open>cv2.error\<close>, \<open>KeyError\<close>,
  \<open>ValueError\<close>, \<open>RecursionError\<close>, ...), each with its message. A call that may
  raise returns \<open>exn + 'a\<close>, with \<open>Inl\<close> the exception.
\<close>

datatype exn =
    GPUServiceUnavailable pystr
  | GPUServiceError pystr
  | OtherException pystr

definition bind :: "exn + 'a \<Rightarrow> ('a \<Rightarrow> exn + 'b) \<Rightarrow> exn + 'b" where
  "bind m f = (case m of Inl e \<Rightarrow> Inl e | Inr x \<Rightarrow> f x)"

fun mapM :: "('a \<Rightarrow> exn + 'b) \<Rightarrow> 'a list \<Rightarrow> exn + 'b list" where
  "mapM f [] = Inr []"
| "mapM f (x # xs) = bind (f x) (\<lambda>y. bind (mapM f xs) (\<lambda>ys. Inr (y # ys)))"

section \<open>The JSON decoder\<close>

text \<open>
  \<open>json.loads\<close> of the standard library, in its default configuration (strict strings,
  the constants \<open>NaN\<close>, \<open>Infinity\<close> and \<open>-Infinity\<close> accepted). A number is kept as
  its lexeme: the programs below only ask whether a value is a string or an object.
  An object is a Python \<open>dict\<close>: an association list in insertion order with distinct
  keys, where a repeated key keeps its first position and takes the last value.

  A call of \<open>json.loads\<close> ends in one of three ways: it returns a value, it raises
  \<open>json.JSONDecodeError\<close> (the text is not JSON), or it raises another exception. Two
  limits of the interpreter make it raise another exception on a text: the conversion
  of an integer literal with more digits than \<open>sys.get_int_max_str_digits()\<close> raises
  \<open>ValueError\<close>, and entering an array or an object when the recursion limit is
  reached raises \<open>RecursionError\<close>. Both are raised at the place of the text where
  the decoder meets them, before anything after that place is looked at.
\<close>

datatype 'a decoded =
    Decoded 'a
  | JSONDecodeError
  | Raises exn

text \<open>
  The interpreter the program runs in: the limit on the digits of an integer
  (\<open>sys.get_int_max_str_digits()\<close>: 4300 unless configured, 0 for no limit) and the
  number of nested containers the decoder can enter before the recursion limit is
  reached (\<open>sys.getrecursionlimit()\<close> less the frames already on the stack).
\<close>

record interpreter =
  int_max_str_digits :: nat
  recursion_budget :: nat

definition ValueError :: exn where
  "ValueError = OtherException (str ''ValueError: Exceeds the limit for integer string conversion'')"

definition RecursionError :: exn where
  "RecursionError = OtherException (str ''RecursionError: maximum recursion depth exceeded'')"

datatype json =
    JNull
  | JBool bool
  | JNumber pystr
  | JString pystr
  | JArray "json list"
  | JObject "(pystr \<times> json) list"

type_synonym pydict = "(pystr \<times> json) list"

definition json_ws :: "nat \<Rightarrow> bool" where
  "json_ws c \<longleftrightarrow> c = 32 \<or> c = 9 \<or> c = 10 \<or> c = 13"

definition skip_ws :: "pystr \<Rightarrow> pystr" where
  "skip_ws s = dropWhile json_ws s"

definition is_digit :: "nat \<Rightarrow> bool" where
  "is_digit c \<longleftrightarrow> 48 \<le> c \<and> c \<le> 57"

definition hexval :: "nat \<Rightarrow> nat option" where
  "hexval c =
     (if 48 \<le> c \<and> c \<le> 57 then Some (c - 48)
      else if 97 \<le> c \<and> c \<le> 102 then Some (c - 87)
      else if 65 \<le> c \<and> c \<le> 70 then Some (c - 55)
      else None)"

text \<open>The four hexadecimal digits of a \<open>\uXXXX\<close> escape.\<close>

definition decode_uXXXX :: "nat \<Rightarrow> nat \<Rightarrow> nat \<Rightarrow> nat \<Rightarrow> nat option" where
  "decode_uXXXX a b c d =
     (case (hexval a, hexval b, hexval c, hexval d) of
        (Some x, Some y, Some z, Some w) \<Rightarrow> Some (4096 * x + 256 * y + 16 * z + w)
      | _ \<Rightarrow> None)"

text \<open>The one-character escapes (\<open>BACKSLASH\<close> of \<open>json.decoder\<close>).\<close>

definition BACKSLASH :: "nat \<Rightarrow> nat option" where
  "BACKSLASH e =
     (if e = 34 then Some 34 else if e = 92 then Some 92 else if e = 47 then Some 47
      else if e = 98 then Some 8 else if e = 102 then Some 12 else if e = 110 then Some 10
      else if e = 114 then Some 13 else if e = 116 then Some 9 else None)"

definition emit :: "nat \<Rightarrow> (pystr \<times> pystr) option \<Rightarrow> (pystr \<times> pystr) option" where
  "emit c res = map_option (\<lambda>(t, q). (c # t, q)) res"

text \<open>
  \<open>scanstring\<close>, called after the opening quote: the decoded string and the text after
  the closing quote. A control character, an unknown escape and a missing closing quote
  are errors. A high surrogate followed by an escaped low surrogate is joined.
\<close>

fun scanstring :: "pystr \<Rightarrow> (pystr \<times> pystr) option" where
  "scanstring [] = None"
| "scanstring (c # cs) =
     (if c = 34 then Some ([], cs)
      else if c = 92 then
        (case cs of
           [] \<Rightarrow> None
         | e # es \<Rightarrow>
             if e = 117 then
               (case es of
                  a # b # c' # d # r \<Rightarrow>
                    (case decode_uXXXX a b c' d of
                       None \<Rightarrow> None
                     | Some uni \<Rightarrow>
                         if 55296 \<le> uni \<and> uni \<le> 56319 \<and> startswith [92, 117] r then
                           (case r of
                              _ # _ # a2 # b2 # c2 # d2 # r2 \<Rightarrow>
                                (case decode_uXXXX a2 b2 c2 d2 of
                                   None \<Rightarrow> None
                                 | Some uni2 \<Rightarrow>
                                     if 56320 \<le> uni2 \<and> uni2 \<le> 57343 then
                                       emit (65536 + ((uni - 55296) * 1024 + (uni2 - 56320)))
                                         (scanstring r2)
                                     else emit uni (scanstring r))
                            | _ \<Rightarrow> None)
                         else emit uni (scanstring r))
                | _ \<Rightarrow> None)
             else
               (case BACKSLASH e of
                  None \<Rightarrow> None
                | Some ch \<Rightarrow> emit ch (scanstring es)))
      else if c < 32 then None
      else emit c (scanstring cs))"

text \<open>
  The number pattern \<open>(-?(?:0|[1-9][0-9]*))(\.[0-9]+)?([eE][-+]?[0-9]+)?\<close>, matched
  at the start of the text: the three groups (integer part, fraction, exponent) and the
  rest.
\<close>

definition match_int :: "pystr \<Rightarrow> (pystr \<times> pystr) option" where
  "match_int s =
     (let (sign, r) = (case s of c # cs \<Rightarrow> if c = 45 then ([45], cs) else ([], s) | [] \<Rightarrow> ([], s))
      in case r of
           [] \<Rightarrow> None
         | d # ds \<Rightarrow>
             if d = 48 then Some (sign @ [48], ds)
             else if is_digit d then Some (sign @ d # takeWhile is_digit ds, dropWhile is_digit ds)
             else None)"

definition match_frac :: "pystr \<Rightarrow> pystr \<times> pystr" where
  "match_frac s =
     (case s of
        c # d # ds \<Rightarrow>
          if c = 46 \<and> is_digit d then (c # d # takeWhile is_digit ds, dropWhile is_digit ds)
          else ([], s)
      | _ \<Rightarrow> ([], s))"

definition match_exp :: "pystr \<Rightarrow> pystr \<times> pystr" where
  "match_exp s =
     (case s of
        [] \<Rightarrow> ([], s)
      | e # r \<Rightarrow>
          if e = 101 \<or> e = 69 then
            (let (sg, r') = (case r of c # cs \<Rightarrow> if c = 45 \<or> c = 43 then ([c], cs) else ([], r)
                                      | [] \<Rightarrow> ([], r))
             in case r' of
                  d # ds \<Rightarrow>
                    if is_digit d then (e # sg @ d # takeWhile is_digit ds, dropWhile is_digit ds)
                    else ([], s)
                | [] \<Rightarrow> ([], s))
          else ([], s))"

definition match_number :: "pystr \<Rightarrow> ((pystr \<times> pystr \<times> pystr) \<times> pystr) option" where
  "match_number s =
     (case match_int s of
        None \<Rightarrow> None
      | Some (i, r) \<Rightarrow>
          (let (f, r1) = match_frac r; (e, r2) = match_exp r1 in Some ((i, f, e), r2)))"

text \<open>
  \<open>dict(pairs)\<close>: a later pair with a key already present replaces the value in place.
\<close>

definition dict_of_pairs :: "(pystr \<times> json) list \<Rightarrow> pydict" where
  "dict_of_pairs ps = foldl (\<lambda>d (k, v). AList.update k v d) [] ps"

text \<open>
  \<open>int(integer)\<close> on the integer part of a number without fraction and exponent. The
  limit applies to the number of digits, the sign apart, and only above 640 digits
  (\<open>sys.int_info.str_digits_check_threshold\<close>).
\<close>

definition parse_int :: "nat \<Rightarrow> pystr \<Rightarrow> exn + json" where
  "parse_int limit integer =
     (let digits = length (filter is_digit integer)
      in if 640 < digits \<and> 0 < limit \<and> limit < digits then Inl ValueError
         else Inr (JNumber integer))"

text \<open>
  \<open>scan_once\<close> with \<open>JSONArray\<close> and \<open>JSONObject\<close>. \<open>parse_items\<close> and
  \<open>parse_members\<close> are the loops of the two, entered after the opening bracket and the
  check for an empty container, with the values read so far (in reverse). \<open>limit\<close> is
  the limit on the digits of an integer and \<open>depth\<close> the number of containers that can
  still be entered. The third argument bounds the number of calls; \<open>json_loads\<close>
  gives one more than the length of the text.
\<close>

fun scan_once :: "nat \<Rightarrow> nat \<Rightarrow> nat \<Rightarrow> pystr \<Rightarrow> (json \<times> pystr) decoded"
  and parse_items :: "nat \<Rightarrow> nat \<Rightarrow> nat \<Rightarrow> json list \<Rightarrow> pystr \<Rightarrow> (json \<times> pystr) decoded"
  and parse_members ::
    "nat \<Rightarrow> nat \<Rightarrow> nat \<Rightarrow> (pystr \<times> json) list \<Rightarrow> pystr \<Rightarrow> (json \<times> pystr) decoded"
where
  "scan_once limit depth 0 s = JSONDecodeError"
| "scan_once limit depth (Suc n) [] = JSONDecodeError"
| "scan_once limit depth (Suc n) (c # cs) =
     (if c = 34 then
        (case scanstring cs of
           None \<Rightarrow> JSONDecodeError
         | Some (t, r) \<Rightarrow> Decoded (JString t, r))
      else if c = 123 then
        (if depth = 0 then Raises RecursionError
         else
           (case skip_ws cs of
              [] \<Rightarrow> JSONDecodeError
            | d # ds \<Rightarrow>
                if d = 125 then Decoded (JObject [], ds)
                else parse_members limit (depth - 1) n [] (d # ds)))
      else if c = 91 then
        (if depth = 0 then Raises RecursionError
         else
           (case skip_ws cs of
              [] \<Rightarrow> JSONDecodeError
            | d # ds \<Rightarrow>
                if d = 93 then Decoded (JArray [], ds)
                else parse_items limit (depth - 1) n [] (d # ds)))
      else if startswith (str ''null'') (c # cs) then Decoded (JNull, drop 4 (c # cs))
      else if startswith (str ''true'') (c # cs) then Decoded (JBool True, drop 4 (c # cs))
      else if startswith (str ''false'') (c # cs) then Decoded (JBool False, drop 5 (c # cs))
      else
        (case match_number (c # cs) of
           Some ((integer, fraction, exponent), r) \<Rightarrow>
             if fraction \<noteq> [] \<or> exponent \<noteq> [] then
               Decoded (JNumber (integer @ fraction @ exponent), r)
             else
               (case parse_int limit integer of
                  Inl e \<Rightarrow> Raises e
                | Inr v \<Rightarrow> Decoded (v, r))
         | None \<Rightarrow>
             if startswith (str ''NaN'') (c # cs) then Decoded (JNumber (str ''NaN''), drop 3 (c # cs))
             else if startswith (str ''Infinity'') (c # cs)
               then Decoded (JNumber (str ''Infinity''), drop 8 (c # cs))
             else if startswith (str ''-Infinity'') (c # cs)
               then Decoded (JNumber (str ''-Infinity''), drop 9 (c # cs))
             else JSONDecodeError))"
| "parse_items limit depth 0 acc s = JSONDecodeError"
| "parse_items limit depth (Suc n) acc s =
     (case scan_once limit depth (Suc n) s of
        JSONDecodeError \<Rightarrow> JSONDecodeError
      | Raises e \<Rightarrow> Raises e
      | Decoded (v, r) \<Rightarrow>
          (case skip_ws r of
             [] \<Rightarrow> JSONDecodeError
           | d # ds \<Rightarrow>
               if d = 93 then Decoded (JArray (rev (v # acc)), ds)
               else if d = 44 then parse_items limit depth n (v # acc) (skip_ws ds)
               else JSONDecodeError))"
| "parse_members limit depth 0 acc s = JSONDecodeError"
| "parse_members limit depth (Suc n) acc s =
     (case s of
        [] \<Rightarrow> JSONDecodeError
      | q # qs \<Rightarrow>
          if q \<noteq> 34 then JSONDecodeError
          else
            (case scanstring qs of
               None \<Rightarrow> JSONDecodeError
             | Some (k, r) \<Rightarrow>
                 (case skip_ws r of
                    [] \<Rightarrow> JSONDecodeError
                  | c # cs \<Rightarrow>
                      if c \<noteq> 58 then JSONDecodeError
                      else
                        (case scan_once limit depth (Suc n) (skip_ws cs) of
                           JSONDecodeError \<Rightarrow> JSONDecodeError
                         | Raises e \<Rightarrow> Raises e
                         | Decoded (v, r') \<Rightarrow>
                             (case skip_ws r' of
                                [] \<Rightarrow> JSONDecodeError
                              | d # ds \<Rightarrow>
                                  if d = 125
                                    then Decoded (JObject (dict_of_pairs (rev ((k, v) # acc))), ds)
                                  else if d = 44
                                    then parse_members limit depth n ((k, v) # acc) (skip_ws ds)
                                  else JSONDecodeError)))))"

text \<open>
  \<open>json.loads(s)\<close>: one value, surrounded by optional JSON whitespace, and nothing
  else.
\<close>

definition json_loads :: "interpreter \<Rightarrow> pystr \<Rightarrow> json decoded" where
  "json_loads py s =
     (case scan_once (int_max_str_digits py) (recursion_budget py) (Suc (length s)) (skip_ws s) of
        JSONDecodeError \<Rightarrow> JSONDecodeError
      | Raises e \<Rightarrow> Raises e
      | Decoded (v, r) \<Rightarrow> if skip_ws r = [] then Decoded v else JSONDecodeError)"

section \<open>The response parser (\<open>vision-brain/extraction.py\<close>)\<close>

definition THINK_OPEN :: pystr where
  "THINK_OPEN = str ''<think>''"

definition THINK_CLOSE :: pystr where
  "THINK_CLOSE = str ''</think>''"

definition FENCE :: pystr where
  "FENCE = str ''```''"

text \<open>The text after the first occurrence of \<open>needle\<close>, if there is one.\<close>

fun after_first :: "pystr \<Rightarrow> pystr \<Rightarrow> pystr option" where
  "after_first needle [] = (if needle = [] then Some [] else None)"
| "after_first needle (c # cs) =
     (if startswith needle (c # cs) then Some (drop (length needle) (c # cs))
      else after_first needle cs)"

text \<open>
  \<open>re.sub(r"<think>.*?</think>", "", raw, flags=re.DOTALL)\<close>: scanning from the
  left, an opening marker that has a closing marker after it is removed together with
  everything up to and including the nearest closing marker, and the scan goes on after
  it; any other character is kept.
\<close>

function re_sub_think :: "pystr \<Rightarrow> pystr" where
  "re_sub_think [] = []"
| "re_sub_think (c # cs) =
     (if startswith THINK_OPEN (c # cs) then
        (case after_first THINK_CLOSE (drop (length THINK_OPEN) (c # cs)) of
           Some r \<Rightarrow> re_sub_think r
         | None \<Rightarrow> c # re_sub_think cs)
      else c # re_sub_think cs)"
  by pat_completeness auto
termination
proof (relation "measure length")
  have shorter: "length r \<le> length s" if "after_first n s = Some r" for n s r
    using that by (induction s arbitrary: r) (auto split: if_splits)
  fix c cs r
  assume "after_first THINK_CLOSE (drop (length THINK_OPEN) (c # cs)) = Some r"
  from shorter [OF this] show "(r, c # cs) \<in> measure length"
    by (simp add: THINK_OPEN_def str_def)
qed simp_all

text \<open>
  \<open>re.search(r"```(?:json)?\s*\n?(.*?)\n?```", cleaned, re.DOTALL)\<close>, group 1 of the
  first match. At an opening fence the tag \<open>json\<close> and the whitespace after it are
  taken greedily (no closing fence can start inside them, so backtracking never gives
  them back); the group is the shortest text followed by an optional newline and a
  closing fence.
\<close>

fun lazy_until_fence :: "pystr \<Rightarrow> pystr option" where
  "lazy_until_fence [] = None"
| "lazy_until_fence (c # cs) =
     (if startswith (10 # FENCE) (c # cs) \<or> startswith FENCE (c # cs) then Some []
      else map_option ((#) c) (lazy_until_fence cs))"

definition fence_at :: "pystr \<Rightarrow> pystr option" where
  "fence_at s =
     (if startswith FENCE s then
        (let r = drop (length FENCE) s;
             r' = (if startswith (str ''json'') r then drop 4 r else r)
         in lazy_until_fence (dropWhile isspace r'))
      else None)"

fun search_fence :: "pystr \<Rightarrow> pystr option" where
  "search_fence [] = None"
| "search_fence (c # cs) =
     (case fence_at (c # cs) of Some g \<Rightarrow> Some g | None \<Rightarrow> search_fence cs)"

text \<open>
  \<open>re.search(r"\{[^{}]*\}", cleaned, re.DOTALL)\<close>, group 0 of the first match: the
  first opening brace whose next brace is a closing one, up to that closing brace.
\<close>

fun brace_body :: "pystr \<Rightarrow> pystr option" where
  "brace_body [] = None"
| "brace_body (c # cs) =
     (if c = 125 then Some [125]
      else if c = 123 then None
      else map_option ((#) c) (brace_body cs))"

fun search_brace :: "pystr \<Rightarrow> pystr option" where
  "search_brace [] = None"
| "search_brace (c # cs) =
     (if c = 123 then
        (case brace_body cs of Some b \<Rightarrow> Some (123 # b) | None \<Rightarrow> search_brace cs)
      else search_brace cs)"

text \<open>
  One strategy of the chain: \<open>json.loads\<close> under \<open>try\<close>, accepted only when the result
  is a \<open>dict\<close>.
\<close>

definition loads_dict :: "interpreter \<Rightarrow> pystr \<Rightarrow> exn + pydict option" where
  "loads_dict py s =
     (case json_loads py s of
        Decoded v \<Rightarrow> (case v of JObject d \<Rightarrow> Inr (Some d) | _ \<Rightarrow> Inr None)
      | JSONDecodeError \<Rightarrow> Inr None
      | Raises e \<Rightarrow> Inl e)"

text \<open>
  \<open>try_parse_json\<close>: the three strategies in order. An exception that a strategy does
  not catch leaves the function.
\<close>

definition try_parse_json :: "interpreter \<Rightarrow> pystr \<Rightarrow> exn + pydict option" where
  "try_parse_json py raw =
     (if raw = [] then Inr None
      else
        (let cleaned = strip (re_sub_think raw) in
         case loads_dict py cleaned of
           Inl e \<Rightarrow> Inl e
         | Inr (Some result) \<Rightarrow> Inr (Some result)
         | Inr None \<Rightarrow>
             (case (case search_fence cleaned of
                      Some g \<Rightarrow> loads_dict py (strip g)
                    | None \<Rightarrow> Inr None) of
                Inl e \<Rightarrow> Inl e
              | Inr (Some result) \<Rightarrow> Inr (Some result)
              | Inr None \<Rightarrow>
                  (case search_brace cleaned of
                     Some m \<Rightarrow> loads_dict py m
                   | None \<Rightarrow> Inr None))))"

text \<open>\<open>try_parse_json\<close> of \<open>vision-service/extraction.py\<close>.\<close>

definition vision_service_try_parse_json :: "interpreter \<Rightarrow> pystr \<Rightarrow> exn + pydict option" where
  "vision_service_try_parse_json py raw =
     (case loads_dict py (strip raw) of
        Inl e \<Rightarrow> Inl e
      | Inr (Some result) \<Rightarrow> Inr (Some result)
      | Inr None \<Rightarrow>
          (case (case search_fence raw of
                   Some g \<Rightarrow> loads_dict py (strip g)
                 | None \<Rightarrow> Inr None) of
             Inl e \<Rightarrow> Inl e
           | Inr (Some result) \<Rightarrow> Inr (Some result)
           | Inr None \<Rightarrow>
               (case search_brace raw of
                  Some m \<Rightarrow> loads_dict py m
                | None \<Rightarrow> Inr None)))"

subsection \<open>Fields\<close>

record ExtractionField =
  key :: pystr
  field_value :: pystr
  confidence :: real
  source :: pystr

record ExtractionResponse =
  document_type :: pystr
  field_list :: "ExtractionField list"
  warnings :: "pystr list"
  processing_time_ms :: int

definition BASE_CONFIDENCE :: real where
  "BASE_CONFIDENCE = 0.75"

definition BOOSTED_CONFIDENCE :: real where
  "BOOSTED_CONFIDENCE = 0.85"

definition EXPECTED_KEYS :: "pystr \<Rightarrow> pystr list option" where
  "EXPECTED_KEYS doc_type =
     (if doc_type = str ''personalausweis'' then
        Some (map str [''first_name'', ''last_name'', ''date_of_birth'', ''birth_place'',
          ''gender'', ''nationality'', ''document_number'', ''expiry_date'',
          ''street'', ''house_number'', ''postal_code'', ''city'', ''document_type''])
      else if doc_type = str ''reisepass'' then
        Some (map str [''first_name'', ''last_name'', ''date_of_birth'', ''birth_place'',
          ''gender'', ''nationality'', ''document_number'', ''expiry_date'',
          ''document_type''])
      else if doc_type = str ''fuehrerschein'' then
        Some (map str [''first_name'', ''last_name'', ''date_of_birth'',
          ''document_number'', ''expiry_date'', ''license_classes'', ''document_type''])
      else None)"

text \<open>The loop over \<open>parsed.items()\<close>.\<close>

fun fields_of_items :: "pystr list \<Rightarrow> pystr \<Rightarrow> pydict \<Rightarrow> ExtractionField list" where
  "fields_of_items known doc_type [] = []"
| "fields_of_items known doc_type ((k, v) # items) =
     (case v of
        JString s \<Rightarrow>
          if strip s = [] then fields_of_items known doc_type items
          else
            \<lparr>key = k, field_value = strip s,
             confidence = (if k \<in> set known then BOOSTED_CONFIDENCE else BASE_CONFIDENCE),
             source = doc_type\<rparr> # fields_of_items known doc_type items
      | _ \<Rightarrow> fields_of_items known doc_type items)"

definition parse_json_from_response ::
  "interpreter \<Rightarrow> pystr \<Rightarrow> pystr \<Rightarrow> exn + ExtractionField list" where
  "parse_json_from_response py raw doc_type =
     (case try_parse_json py raw of
        Inl e \<Rightarrow> Inl e
      | Inr None \<Rightarrow> Inr []
      | Inr (Some parsed) \<Rightarrow>
          (let known = (case EXPECTED_KEYS doc_type of Some ks \<Rightarrow> ks | None \<Rightarrow> [])
           in Inr (fields_of_items known doc_type parsed)))"

text \<open>
  The field builder as the specification words it. A value is kept when it is a string
  with a character that is not whitespace; the kept text is the string without its
  leading and trailing whitespace: what lies between the first and the last character
  that is not whitespace, both included. The pairs whose value is not kept are dropped;
  every other pair becomes a field, in the order of the object's keys.
\<close>

definition first_nonspace :: "pystr \<Rightarrow> nat" where
  "first_nonspace s = length (takeWhile isspace s)"

definition trailing_space :: "pystr \<Rightarrow> nat" where
  "trailing_space s = length (takeWhile isspace (rev s))"

definition trimmed :: "pystr \<Rightarrow> pystr" where
  "trimmed s = take (length s - first_nonspace s - trailing_space s) (drop (first_nonspace s) s)"

definition kept_value :: "json \<Rightarrow> pystr option" where
  "kept_value v =
     (case v of
        JString s \<Rightarrow> (if list_all isspace s then None else Some (trimmed s))
      | _ \<Rightarrow> None)"

definition buildFields_spec :: "pystr list \<Rightarrow> pystr \<Rightarrow> pydict \<Rightarrow> ExtractionField list" where
  "buildFields_spec known doc_type parsed =
     map (\<lambda>(k, v). \<lparr>key = k, field_value = the (kept_value v),
                     confidence = (if k \<in> set known then 0.85 else 0.75),
                     source = doc_type\<rparr>)
       (filter (\<lambda>(k, v). kept_value v \<noteq> None) parsed)"

section \<open>The preprocessing pipeline (\<open>vision-brain/preprocessing.py\<close>)\<close>

text \<open>
  An image is an array of \<open>rows \<times> cols\<close> pixels (\<open>img.shape[:2]\<close>); the pixel data
  are kept as they are. The operations of OpenCV and NumPy that the pipeline calls are
  parameters, collected in a record; each of them may raise. The pipeline's own
  arithmetic on Python floats is done on reals: the comparisons it makes are between
  quotients of integers and the constants \<open>0.1\<close> and \<open>0.2\<close>, which no rounding of a
  double changes.
\<close>

type_synonym bytes = "8 word list"

record image =
  rows :: nat
  cols :: nat
  pixels :: "nat list"

type_synonym point = "int \<times> int"
type_synonym contour = "point list"
type_synonym segment = "int \<times> int \<times> int \<times> int"
type_synonym matrix = "real list"

record cv2 =
  cv_imdecode :: "bytes \<Rightarrow> exn + image option"
  cv_cvtColor_BGR2GRAY :: "image \<Rightarrow> exn + image"
  cv_GaussianBlur :: "image \<Rightarrow> exn + image"
  cv_Canny :: "image \<Rightarrow> exn + image"
  cv_dilate :: "image \<Rightarrow> exn + image"
  cv_findContours :: "image \<Rightarrow> exn + contour list"
  cv_contourArea :: "contour \<Rightarrow> exn + real"
  cv_arcLength :: "contour \<Rightarrow> exn + real"
  cv_approxPolyDP :: "contour \<Rightarrow> real \<Rightarrow> exn + contour"
  cv_getPerspectiveTransform :: "point list \<Rightarrow> (nat \<times> nat) list \<Rightarrow> exn + matrix"
  cv_warpPerspective :: "image \<Rightarrow> matrix \<Rightarrow> nat \<times> nat \<Rightarrow> exn + image"
  cv_HoughLinesP :: "image \<Rightarrow> exn + segment list option"
  np_degrees_arctan2 :: "int \<Rightarrow> int \<Rightarrow> real"
  cv_getRotationMatrix2D :: "nat \<times> nat \<Rightarrow> real \<Rightarrow> exn + matrix"
  cv_warpAffine :: "image \<Rightarrow> matrix \<Rightarrow> nat \<times> nat \<Rightarrow> exn + image"
  cv_cvtColor_BGR2LAB :: "image \<Rightarrow> exn + image"
  cv_clahe_apply_L :: "image \<Rightarrow> exn + image"
  cv_cvtColor_LAB2BGR :: "image \<Rightarrow> exn + image"
  cv_resize :: "image \<Rightarrow> nat \<times> nat \<Rightarrow> exn + image"
  cv_imencode_jpg :: "image \<Rightarrow> exn + bool \<times> bytes"

definition TARGET_PORTRAIT :: "nat \<times> nat" where
  "TARGET_PORTRAIT = (768, 1024)"

definition TARGET_LANDSCAPE :: "nat \<times> nat" where
  "TARGET_LANDSCAPE = (1024, 768)"

text \<open>\<open>_decode\<close>: no \<open>try\<close> around the decoder.\<close>

definition decode :: "cv2 \<Rightarrow> bytes \<Rightarrow> exn + image option" where
  "decode cv image_bytes = cv_imdecode cv image_bytes"

text \<open>\<open>np.argmin\<close> and \<open>np.argmax\<close>: the first index of the least and greatest value.\<close>

definition argmin :: "int list \<Rightarrow> nat" where
  "argmin xs = length (takeWhile (\<lambda>x. x \<noteq> Min (set xs)) xs)"

definition argmax :: "int list \<Rightarrow> nat" where
  "argmax xs = length (takeWhile (\<lambda>x. x \<noteq> Max (set xs)) xs)"

text \<open>
  \<open>_order_points\<close>, on the four points of the polygon: top-left, top-right,
  bottom-right, bottom-left.
\<close>

definition order_points :: "point list \<Rightarrow> point list" where
  "order_points pts =
     (let s = map (\<lambda>(x, y). x + y) pts;
          d = map (\<lambda>(x, y). y - x) pts
      in [pts ! argmin s, pts ! argmin d, pts ! argmax s, pts ! argmax d])"

definition norm2 :: "point \<Rightarrow> point \<Rightarrow> real" where
  "norm2 p q = sqrt (real_of_int ((fst p - fst q)\<^sup>2 + (snd p - snd q)\<^sup>2))"

text \<open>
  \<open>_perspective_transform\<close>: \<open>None\<close> when the destination rectangle has a side
  below 100 pixels.
\<close>

definition max_width :: "point list \<Rightarrow> nat" where
  "max_width rect =
     (let tl = rect ! 0; tr = rect ! 1; br = rect ! 2; bl = rect ! 3
      in nat \<lfloor>max (norm2 br bl) (norm2 tr tl)\<rfloor>)"

definition max_height :: "point list \<Rightarrow> nat" where
  "max_height rect =
     (let tl = rect ! 0; tr = rect ! 1; br = rect ! 2; bl = rect ! 3
      in nat \<lfloor>max (norm2 tr br) (norm2 tl bl)\<rfloor>)"

definition perspective_transform :: "cv2 \<Rightarrow> image \<Rightarrow> point list \<Rightarrow> exn + image option" where
  "perspective_transform cv img rect =
     (let w = max_width rect; h = max_height rect
      in if w < 100 \<or> h < 100 then Inr None
         else
           bind (cv_getPerspectiveTransform cv rect [(0, 0), (w - 1, 0), (w - 1, h - 1), (0, h - 1)])
             (\<lambda>m. bind (cv_warpPerspective cv img m (w, h)) (\<lambda>out. Inr (Some out))))"

text \<open>
  \<open>_crop_document\<close>. \<open>crop_candidates\<close> is the loop over the (at most five) largest
  contours; \<open>detect_contours\<close> is the edge detection up to \<open>findContours\<close>
  and \<open>crop_try\<close> the body of the \<open>try\<close>. A contour that is no quadrilateral,
  covers less than a fifth of the image or has too small a destination rectangle is
  passed over and the loop goes on with the next one.
\<close>

fun crop_candidates :: "cv2 \<Rightarrow> image \<Rightarrow> contour list \<Rightarrow> exn + image" where
  "crop_candidates cv img [] = Inr img"
| "crop_candidates cv img (c # rest) =
     bind (cv_arcLength cv c) (\<lambda>peri.
     bind (cv_approxPolyDP cv c (0.02 * peri)) (\<lambda>approx.
       if length approx = 4 then
         bind (cv_contourArea cv approx) (\<lambda>a.
           if rows img * cols img = 0 then Inl (OtherException (str ''ZeroDivisionError''))
           else if a / real (rows img * cols img) < 0.2 then crop_candidates cv img rest
           else
             bind (perspective_transform cv img (order_points approx)) (\<lambda>dst.
               case dst of
                 Some out \<Rightarrow> Inr out
               | None \<Rightarrow> crop_candidates cv img rest))
       else crop_candidates cv img rest))"

text \<open>
  \<open>sorted(contours, key=cv2.contourArea, reverse=True)\<close>: a stable sort, by decreasing
  area.
\<close>

definition sorted_by_area :: "cv2 \<Rightarrow> contour list \<Rightarrow> exn + contour list" where
  "sorted_by_area cv contours =
     bind (mapM (cv_contourArea cv) contours) (\<lambda>areas.
       Inr (map snd (sort_key (\<lambda>(a, c). - a) (zip areas contours))))"

definition detect_contours :: "cv2 \<Rightarrow> image \<Rightarrow> exn + contour list" where
  "detect_contours cv img =
     bind (cv_cvtColor_BGR2GRAY cv img) (\<lambda>gray.
     bind (cv_GaussianBlur cv gray) (\<lambda>blurred.
     bind (cv_Canny cv blurred) (\<lambda>edges.
     bind (cv_dilate cv edges) (\<lambda>edges'.
     cv_findContours cv edges'))))"

definition crop_try :: "cv2 \<Rightarrow> image \<Rightarrow> exn + image" where
  "crop_try cv img =
     bind (detect_contours cv img) (\<lambda>contours.
       if contours = [] then Inr img
       else bind (sorted_by_area cv contours) (\<lambda>sorted.
              crop_candidates cv img (take 5 sorted)))"

definition crop_document :: "cv2 \<Rightarrow> image \<Rightarrow> image" where
  "crop_document cv img = (case crop_try cv img of Inl e \<Rightarrow> img | Inr out \<Rightarrow> out)"

text \<open>\<open>np.median\<close> of a non-empty list.\<close>

definition median :: "real list \<Rightarrow> real" where
  "median xs =
     (let ys = sort xs; n = length ys
      in if odd n then ys ! (n div 2) else (ys ! (n div 2 - 1) + ys ! (n div 2)) / 2)"

text \<open>\<open>_deskew\<close>.\<close>

definition deskew_try :: "cv2 \<Rightarrow> image \<Rightarrow> exn + image" where
  "deskew_try cv img =
     bind (cv_cvtColor_BGR2GRAY cv img) (\<lambda>gray.
     bind (cv_Canny cv gray) (\<lambda>edges.
     bind (cv_HoughLinesP cv edges) (\<lambda>lines.
       case lines of
         None \<Rightarrow> Inr img
       | Some ls \<Rightarrow>
           if length ls < 3 then Inr img
           else
             (let angles = filter (\<lambda>angle. \<bar>angle\<bar> < 45)
                    (map (\<lambda>(x1, y1, x2, y2). np_degrees_arctan2 cv (y2 - y1) (x2 - x1)) ls)
              in if angles = [] then Inr img
                 else
                   (let median_angle = median angles
                    in if \<bar>median_angle\<bar> < 5 then Inr img
                       else
                         bind (cv_getRotationMatrix2D cv (cols img div 2, rows img div 2) median_angle)
                           (\<lambda>m. cv_warpAffine cv img m (cols img, rows img)))))))"

definition deskew :: "cv2 \<Rightarrow> image \<Rightarrow> image" where
  "deskew cv img = (case deskew_try cv img of Inl e \<Rightarrow> img | Inr out \<Rightarrow> out)"

text \<open>\<open>_clahe_normalize\<close>.\<close>

definition clahe_normalize :: "cv2 \<Rightarrow> image \<Rightarrow> image" where
  "clahe_normalize cv img =
     (case bind (cv_cvtColor_BGR2LAB cv img) (\<lambda>lab.
           bind (cv_clahe_apply_L cv lab) (\<lambda>lab'. cv_cvtColor_LAB2BGR cv lab')) of
        Inl e \<Rightarrow> img
      | Inr out \<Rightarrow> out)"

text \<open>
  \<open>_resize\<close>: no resizing when width and height are both less than 10% off the
  target.
\<close>

definition resize_target :: "image \<Rightarrow> nat \<times> nat" where
  "resize_target img = (if cols img > rows img then TARGET_LANDSCAPE else TARGET_PORTRAIT)"

definition within_tolerance :: "image \<Rightarrow> bool" where
  "within_tolerance img =
     (let (target_w, target_h) = resize_target img
      in \<bar>real (cols img) - real target_w\<bar> / real target_w < 0.1 \<and>
         \<bar>real (rows img) - real target_h\<bar> / real target_h < 0.1)"

definition resize :: "cv2 \<Rightarrow> image \<Rightarrow> image" where
  "resize cv img =
     (if within_tolerance img then img
      else (case cv_resize cv img (resize_target img) of Inl e \<Rightarrow> img | Inr out \<Rightarrow> out))"

text \<open>\<open>_encode\<close>.\<close>

definition encode :: "cv2 \<Rightarrow> image \<Rightarrow> bytes \<Rightarrow> bytes" where
  "encode cv img fallback =
     (case cv_imencode_jpg cv img of
        Inl e \<Rightarrow> fallback
      | Inr (success, buf) \<Rightarrow> if success then buf else fallback)"

text \<open>\<open>preprocess\<close>.\<close>

definition preprocess :: "cv2 \<Rightarrow> bytes \<Rightarrow> exn + bytes" where
  "preprocess cv image_bytes =
     (case decode cv image_bytes of
        Inl e \<Rightarrow> Inl e
      | Inr None \<Rightarrow> Inr image_bytes
      | Inr (Some img) \<Rightarrow>
          Inr (encode cv
                (resize cv (clahe_normalize cv (deskew cv (crop_document cv img))))
                image_bytes))"

section \<open>The inference client (\<open>vision-brain/gpu_client.py\<close>)\<close>

text \<open>
  What \<open>self._client.post("/infer", json=payload)\<close> can do: raise one of the
  \<open>httpx\<close> exceptions that the client tells apart, raise another \<open>httpx.HTTPError\<close>,
  raise anything else, or return a response with its status code and its body as
  \<open>resp.json()\<close> gives it (\<open>None\<close> when the body is not JSON).
\<close>

datatype http_result =
    ConnectError pystr
  | ConnectTimeout pystr
  | ReadTimeout pystr
  | HTTPError pystr
  | Raised pystr
  | Response nat "json option"

text \<open>
  The payload holds the preprocessed image (sent in base64) and the prompt.
\<close>

type_synonym payload = "bytes \<times> pystr"

text \<open>
  A client: its retry settings and its connection. \<open>http_post k payload\<close> is the outcome
  of the \<open>k\<close>-th request sent for a call of \<open>infer\<close>; \<open>py_str\<close> is Python's \<open>str()\<close> on
  a JSON value that is not a string (the text of an exception raised with it).
\<close>

record GPUClient =
  retry_attempts :: int
  retry_delay :: real
  retry_backoff :: real
  http_post :: "nat \<Rightarrow> payload \<Rightarrow> http_result"
  py_str :: "json \<Rightarrow> pystr"

function decimal :: "nat \<Rightarrow> pystr" where
  "decimal n = (if n < 10 then [48 + n] else decimal (n div 10) @ [48 + n mod 10])"
  by pat_completeness auto
termination
  by (relation "measure id") auto

text \<open>\<open>resp.json().get("detail", default)\<close>.\<close>

definition get_detail :: "(json \<Rightarrow> pystr) \<Rightarrow> json option \<Rightarrow> pystr \<Rightarrow> exn + pystr" where
  "get_detail rend body dflt =
     (case body of
        None \<Rightarrow> Inl (OtherException (str ''JSONDecodeError''))
      | Some (JObject d) \<Rightarrow>
          (case map_of d (str ''detail'') of
             None \<Rightarrow> Inr dflt
           | Some (JString s) \<Rightarrow> Inr s
           | Some v \<Rightarrow> Inr (rend v))
      | Some _ \<Rightarrow> Inl (OtherException (str ''AttributeError'')))"

text \<open>
  \<open>_send_infer\<close>, for the \<open>k\<close>-th request. The result is the text and the value of
  \<open>inference_time_ms\<close> (\<open>0\<close> when absent). The body of a success is read as the
  backend's contract gives it: a body that is no object with a string \<open>text\<close> ends in
  an exception of another kind than the client's two.
\<close>

definition send_infer :: "GPUClient \<Rightarrow> nat \<Rightarrow> payload \<Rightarrow> exn + pystr \<times> json" where
  "send_infer client k payload =
     (case http_post client k payload of
        ConnectError e \<Rightarrow> Inl (GPUServiceUnavailable (str ''Cannot connect to GPU service: '' @ e))
      | ConnectTimeout e \<Rightarrow> Inl (GPUServiceUnavailable (str ''Cannot connect to GPU service: '' @ e))
      | ReadTimeout e \<Rightarrow> Inl (GPUServiceUnavailable (str ''GPU service read timeout: '' @ e))
      | HTTPError e \<Rightarrow> Inl (GPUServiceError (str ''GPU service HTTP error: '' @ e))
      | Raised e \<Rightarrow> Inl (OtherException e)
      | Response status_code body \<Rightarrow>
          if status_code = 503 then
            bind (get_detail (py_str client) body (str ''Service unavailable''))
              (\<lambda>detail. Inl (GPUServiceUnavailable detail))
          else if status_code \<noteq> 200 then
            bind (get_detail (py_str client) body (str ''HTTP '' @ decimal status_code))
              (\<lambda>detail. Inl (GPUServiceError detail))
          else
            (case body of
               Some (JObject data) \<Rightarrow>
                 (case map_of data (str ''text'') of
                    Some (JString text) \<Rightarrow>
                      Inr (text,
                           (case map_of data (str ''inference_time_ms'') of
                              Some ms \<Rightarrow> ms
                            | None \<Rightarrow> JNumber (str ''0'')))
                  | _ \<Rightarrow> Inl (OtherException (str ''KeyError'')))
             | _ \<Rightarrow> Inl (OtherException (str ''JSONDecodeError''))))"

text \<open>
  \<open>wait_exponential(multiplier, exp_base, max=120)\<close> of tenacity, after the attempt
  \<open>n\<close>.
\<close>

definition wait_exponential :: "GPUClient \<Rightarrow> nat \<Rightarrow> real" where
  "wait_exponential client n =
     max 0 (min (retry_delay client * retry_backoff client ^ (n - 1)) 120)"

text \<open>
  What a call of \<open>infer\<close> did: its result or the exception it raised, the number of
  requests sent and the pauses between them.
\<close>

record infer_outcome =
  outcome :: "exn + pystr \<times> json"
  calls :: nat
  sleeps :: "real list"

text \<open>
  \<open>_infer_with_retry\<close>: tenacity's loop with
  \<open>retry_if_exception_type(GPUServiceUnavailable)\<close>, \<open>stop_after_attempt\<close> and
  \<open>reraise=True\<close>. The attempt \<open>attempt_number\<close> is made; a result is returned; an
  exception that is not \<open>GPUServiceUnavailable\<close> is raised at once; otherwise the loop
  stops when \<open>attempt_number >= retry_attempts\<close> and raises the last exception, or
  sleeps and makes the next attempt.
\<close>

function retry_loop :: "GPUClient \<Rightarrow> payload \<Rightarrow> nat \<Rightarrow> real list \<Rightarrow> infer_outcome" where
  "retry_loop client payload attempt_number slept =
     (case send_infer client attempt_number payload of
        Inr r \<Rightarrow> \<lparr>outcome = Inr r, calls = attempt_number, sleeps = slept\<rparr>
      | Inl e \<Rightarrow>
          (case e of
             GPUServiceUnavailable d \<Rightarrow>
               if int attempt_number \<ge> retry_attempts client
               then \<lparr>outcome = Inl e, calls = attempt_number, sleeps = slept\<rparr>
               else retry_loop client payload (Suc attempt_number)
                      (slept @ [wait_exponential client attempt_number])
           | _ \<Rightarrow> \<lparr>outcome = Inl e, calls = attempt_number, sleeps = slept\<rparr>))"
  by pat_completeness auto
termination
  by (relation "measure (\<lambda>(client, payload, n, slept). nat (retry_attempts client - int n))") auto

definition infer_with_retry :: "GPUClient \<Rightarrow> payload \<Rightarrow> infer_outcome" where
  "infer_with_retry client payload = retry_loop client payload 1 []"

definition infer :: "GPUClient \<Rightarrow> bytes \<Rightarrow> pystr \<Rightarrow> infer_outcome" where
  "infer client preprocessed_bytes prompt = infer_with_retry client (preprocessed_bytes, prompt)"

section \<open>The orchestrator (\<open>vision-brain/extraction.py\<close>)\<close>

text \<open>
  The prompt table of \<open>prompts.py\<close>: three document types; the prompt texts are a
  parameter.
\<close>

definition PROMPTS :: "(pystr \<Rightarrow> pystr) \<Rightarrow> pystr \<Rightarrow> pystr option" where
  "PROMPTS texts doc_type =
     (if doc_type = str ''personalausweis'' \<or> doc_type = str ''reisepass'' \<or>
         doc_type = str ''fuehrerschein''
      then Some (texts doc_type) else None)"

text \<open>\<open>int(x)\<close> on a float: truncation towards zero.\<close>

definition py_int :: "real \<Rightarrow> int" where
  "py_int x = (if 0 \<le> x then \<lfloor>x\<rfloor> else \<lceil>x\<rceil>)"

text \<open>
  A run of \<open>extract_from_image\<close>: the response it returns or the exception that leaves
  it, and what it did on the way: how often it called \<open>preprocess\<close> and how many
  requests the client sent.
\<close>

record run =
  returned :: "exn + ExtractionResponse"
  preprocess_calls :: nat
  network_calls :: nat

text \<open>
  \<open>extract_from_image\<close> in the interpreter \<open>py\<close>. The client is the argument
  \<open>gpu_client\<close>, given by its method \<open>infer\<close>; \<open>clock\<close> holds the two readings of
  \<open>time.monotonic()\<close> of a run that gets past the prompt lookup. An exception of
  \<open>preprocess\<close>, of the client (other than the two it catches) or of
  \<open>parse_json_from_response\<close> leaves the function.
\<close>

definition extract_from_image ::
  "interpreter \<Rightarrow> (pystr \<Rightarrow> pystr) \<Rightarrow> cv2 \<Rightarrow> real \<times> real \<Rightarrow> bytes \<Rightarrow> pystr \<Rightarrow>
   (bytes \<Rightarrow> pystr \<Rightarrow> infer_outcome) \<Rightarrow> run" where
  "extract_from_image py texts cv clock image_bytes doc_type gpu_client_infer =
     (case PROMPTS texts doc_type of
        None \<Rightarrow>
          \<lparr>returned = Inr \<lparr>document_type = doc_type, field_list = [],
                             warnings = [str ''No prompt defined for document type: '' @ doc_type],
                             processing_time_ms = 0\<rparr>,
           preprocess_calls = 0, network_calls = 0\<rparr>
      | Some prompt \<Rightarrow>
          (case preprocess cv image_bytes of
             Inl e \<Rightarrow> \<lparr>returned = Inl e, preprocess_calls = 1, network_calls = 0\<rparr>
           | Inr preprocessed \<Rightarrow>
               (let r = gpu_client_infer preprocessed prompt;
                    elapsed_ms = py_int ((snd clock - fst clock) * 1000)
                in case outcome r of
                     Inl (GPUServiceUnavailable e) \<Rightarrow>
                       \<lparr>returned = Inr \<lparr>document_type = doc_type, field_list = [],
                            warnings = [str ''GPU inference service unavailable: '' @ e],
                            processing_time_ms = elapsed_ms\<rparr>,
                        preprocess_calls = 1, network_calls = calls r\<rparr>
                   | Inl (GPUServiceError e) \<Rightarrow>
                       \<lparr>returned = Inr \<lparr>document_type = doc_type, field_list = [],
                            warnings = [str ''GPU inference failed: '' @ e],
                            processing_time_ms = elapsed_ms\<rparr>,
                        preprocess_calls = 1, network_calls = calls r\<rparr>
                   | Inl (OtherException e) \<Rightarrow>
                       \<lparr>returned = Inl (OtherException e), preprocess_calls = 1,
                        network_calls = calls r\<rparr>
                   | Inr (raw_text, inference_ms) \<Rightarrow>
                       (case parse_json_from_response py raw_text doc_type of
                          Inl e \<Rightarrow>
                            \<lparr>returned = Inl e, preprocess_calls = 1, network_calls = calls r\<rparr>
                        | Inr extracted \<Rightarrow>
                            \<lparr>returned = Inr \<lparr>document_type = doc_type, field_list = extracted,
                                warnings =
                                  (if extracted = [] then
                                     [str ''Could not extract any fields from the image. The image may be unclear or the document type may not match.'']
                                   else []),
                                processing_time_ms = elapsed_ms\<rparr>,
                             preprocess_calls = 1, network_calls = calls r\<rparr>))))"

section \<open>Stand-ins for the collaborators\<close>

text \<open>
  Concrete backends for the examples: one that answers every request with status 503
  and the detail \<open>Model loading\<close>, and one that answers with status 500 and the detail
  \<open>Internal error\<close>, both behind a client configured for three attempts.
\<close>

definition backend_503 :: GPUClient where
  "backend_503 =
     \<lparr>retry_attempts = 3, retry_delay = 0.01, retry_backoff = 1,
      http_post = (\<lambda>k payload.
        Response 503 (Some (JObject [(str ''detail'', JString (str ''Model loading''))]))),
      py_str = (\<lambda>v. [])\<rparr>"

definition backend_500 :: GPUClient where
  "backend_500 =
     \<lparr>retry_attempts = 3, retry_delay = 0.01, retry_backoff = 1,
      http_post = (\<lambda>k payload.
        Response 500 (Some (JObject [(str ''detail'', JString (str ''Internal error''))]))),
      py_str = (\<lambda>v. [])\<rparr>"

text \<open>
  A stand-in for OpenCV and NumPy, for the examples. Its codec writes the height and
  the width of an image in two bytes each, refuses a side of 65536 pixels or more,
  reads back any four bytes and nothing else and, as OpenCV's decoder does, raises on an
  empty buffer. Edge detection finds the given contours, each already a polygon, with
  its area by the shoelace formula; no line is found; the colour operations leave the
  image as it is; warping and resizing give an image of the size asked for.
\<close>

definition toy_imdecode :: "bytes \<Rightarrow> exn + image option" where
  "toy_imdecode buf =
     (if buf = [] then Inl (OtherException (str ''cv2.error: !buf.empty() in function imdecode_''))
      else
        (case buf of
           [a, b, c, d] \<Rightarrow>
             Inr (Some \<lparr>rows = 256 * unat a + unat b, cols = 256 * unat c + unat d, pixels = []\<rparr>)
         | _ \<Rightarrow> Inr None))"

definition toy_imencode :: "image \<Rightarrow> exn + bool \<times> bytes" where
  "toy_imencode img =
     (if rows img < 65536 \<and> cols img < 65536 then
        Inr (True, [of_nat (rows img div 256), of_nat (rows img mod 256),
                    of_nat (cols img div 256), of_nat (cols img mod 256)])
      else Inr (False, []))"

fun cross_sum :: "point list \<Rightarrow> int" where
  "cross_sum (p # q # r) = fst p * snd q - fst q * snd p + cross_sum (q # r)"
| "cross_sum _ = 0"

definition shoelace :: "contour \<Rightarrow> real" where
  "shoelace c = (case c of [] \<Rightarrow> 0 | p # r \<Rightarrow> \<bar>real_of_int (cross_sum (c @ [p]))\<bar> / 2)"

definition cv_cards :: "contour list \<Rightarrow> cv2" where
  "cv_cards found =
     \<lparr>cv_imdecode = toy_imdecode,
      cv_cvtColor_BGR2GRAY = Inr, cv_GaussianBlur = Inr, cv_Canny = Inr, cv_dilate = Inr,
      cv_findContours = (\<lambda>edges. Inr found),
      cv_contourArea = (\<lambda>c. Inr (shoelace c)),
      cv_arcLength = (\<lambda>c. Inr 0),
      cv_approxPolyDP = (\<lambda>c epsilon. Inr c),
      cv_getPerspectiveTransform = (\<lambda>src dst. Inr []),
      cv_warpPerspective = (\<lambda>img m (w, h). Inr \<lparr>rows = h, cols = w, pixels = []\<rparr>),
      cv_HoughLinesP = (\<lambda>edges. Inr None),
      np_degrees_arctan2 = (\<lambda>dy dx. 0),
      cv_getRotationMatrix2D = (\<lambda>center angle. Inr []),
      cv_warpAffine = (\<lambda>img m size. Inr img),
      cv_cvtColor_BGR2LAB = Inr, cv_clahe_apply_L = Inr, cv_cvtColor_LAB2BGR = Inr,
      cv_resize = (\<lambda>img (w, h). Inr \<lparr>rows = h, cols = w, pixels = []\<rparr>),
      cv_imencode_jpg = toy_imencode\<rparr>"

text \<open>
  What is asked of the library for the properties of the resize and crop stages:
  resizing and warping give an image of the dsize asked for, and a buffer that the
  encoder wrote decodes to an image of the dsize of the one encoded. \<open>staged\<close> is the
  image that reaches the resize stage.
\<close>

definition resize_contract :: "cv2 \<Rightarrow> bool" where
  "resize_contract cv \<longleftrightarrow>
     (\<forall>i dsize out. cv_resize cv i dsize = Inr out \<longrightarrow> cols out = fst dsize \<and> rows out = snd dsize)"

definition warp_contract :: "cv2 \<Rightarrow> bool" where
  "warp_contract cv \<longleftrightarrow>
     (\<forall>i m dsize out. cv_warpPerspective cv i m dsize = Inr out \<longrightarrow>
        cols out = fst dsize \<and> rows out = snd dsize)"

definition codec_contract :: "cv2 \<Rightarrow> bool" where
  "codec_contract cv \<longleftrightarrow>
     (\<forall>i buf. cv_imencode_jpg cv i = Inr (True, buf) \<longrightarrow>
        (\<exists>i'. cv_imdecode cv buf = Inr (Some i') \<and> rows i' = rows i \<and> cols i' = cols i))"

definition staged :: "cv2 \<Rightarrow> image \<Rightarrow> image" where
  "staged cv img = clahe_normalize cv (deskew cv (crop_document cv img))"

text \<open>
  A photo of 400x1000 pixels showing two cards side by side: a narrow one, 90 pixels
  wide and 980 high, and a smaller one of 240x350 pixels.
\<close>

definition card_A :: contour where
  "card_A = [(10, 10), (100, 10), (100, 990), (10, 990)]"

definition card_B :: contour where
  "card_B = [(150, 10), (390, 10), (390, 360), (150, 360)]"

definition photo_two_cards :: image where
  "photo_two_cards = \<lparr>rows = 1000, cols = 400, pixels = []\<rparr>"

text \<open>
  A contour is \<open>too_small\<close> when its polygon, if it is a quadrilateral, has a
  destination rectangle with a side below 100 pixels.
\<close>

definition too_small :: "cv2 \<Rightarrow> contour \<Rightarrow> bool" where
  "too_small cv c \<longleftrightarrow>
     (\<forall>peri approx. cv_arcLength cv c = Inr peri \<and> cv_approxPolyDP cv c (0.02 * peri) = Inr approx \<and>
        length approx = 4 \<longrightarrow>
        max_width (order_points approx) < 100 \<or> max_height (order_points approx) < 100)"

text \<open>
  An interpreter with the default limits: 4300 digits for an integer, and room for 990
  nested containers (the recursion limit of 1000 with a few frames in use).
\<close>

definition cpython :: interpreter where
  "cpython = \<lparr>int_max_str_digits = 4300, recursion_budget = 990\<rparr>"

section \<open>Properties\<close>

lemma startswith_Nil2: "startswith p [] \<longleftrightarrow> p = []"
  by (cases p) simp_all

lemma strip_Nil: "strip [] = []"
  by (simp add: strip_def rstrip_def lstrip_def)

lemma strip_decomp:
  "s = takeWhile isspace s @ strip s @ rev (takeWhile isspace (rev (dropWhile isspace s)))"
proof -
  let ?t = "dropWhile isspace s"
  have a: "takeWhile isspace (rev ?t) @ dropWhile isspace (rev ?t) = rev ?t"
    by (rule takeWhile_dropWhile_id)
  have "rev (takeWhile isspace (rev ?t) @ dropWhile isspace (rev ?t)) = ?t"
    by (simp only: a rev_rev_ident)
  then have b: "rev (dropWhile isspace (rev ?t)) @ rev (takeWhile isspace (rev ?t)) = ?t"
    by (simp only: rev_append)
  have c: "takeWhile isspace s @ ?t = s"
    by (rule takeWhile_dropWhile_id)
  show ?thesis
    unfolding strip_def rstrip_def lstrip_def by (simp only: b c)
qed

lemma last_dropWhile_same: "dropWhile P xs \<noteq> [] \<Longrightarrow> last (dropWhile P xs) = last xs"
  by (induction xs) auto

lemma strip_ends:
  assumes "strip s \<noteq> []"
  shows "\<not> isspace (hd (strip s)) \<and> \<not> isspace (last (strip s))"
proof -
  let ?t = "dropWhile isspace s"
  let ?u = "dropWhile isspace (rev ?t)"
  from assms have u: "?u \<noteq> []" by (simp add: strip_def rstrip_def lstrip_def)
  have t: "?t \<noteq> []"
  proof
    assume e: "?t = []"
    have "?u = []" unfolding e by simp
    with u show False by contradiction
  qed
  have "last (strip s) = hd ?u"
    by (simp add: strip_def rstrip_def lstrip_def last_rev)
  moreover from u have "\<not> isspace (hd ?u)" by (rule hd_dropWhile)
  moreover have "hd (strip s) = last ?u"
    by (simp add: strip_def rstrip_def lstrip_def hd_rev)
  moreover from u have "last ?u = last (rev ?t)" by (rule last_dropWhile_same)
  moreover have "last (rev ?t) = hd ?t" by (simp add: last_rev)
  moreover from t have "\<not> isspace (hd ?t)" by (rule hd_dropWhile)
  ultimately show ?thesis by simp
qed

lemma strip_Nil_iff: "strip s = [] \<longleftrightarrow> list_all isspace s"
proof
  assume "list_all isspace s"
  then have e: "dropWhile isspace s = []" by (simp add: list_all_iff)
  show "strip s = []" unfolding strip_def rstrip_def lstrip_def e by simp
next
  assume e: "strip s = []"
  have "dropWhile isspace s = []"
  proof (rule ccontr)
    assume t: "dropWhile isspace s \<noteq> []"
    then have "\<not> isspace (hd (dropWhile isspace s))" by (rule hd_dropWhile)
    moreover from t have "hd (dropWhile isspace s) \<in> set (rev (dropWhile isspace s))" by simp
    ultimately have "dropWhile isspace (rev (dropWhile isspace s)) \<noteq> []"
      by (auto simp: dropWhile_eq_Nil_conv)
    with e show False by (simp add: strip_def rstrip_def lstrip_def)
  qed
  then show "list_all isspace s" by (simp add: list_all_iff)
qed

lemma strip_trimmed: "strip s = trimmed s"
proof (cases "list_all isspace s")
  case True
  then have e: "takeWhile isspace s = s" by (simp add: list_all_iff)
  have "trimmed s = []" unfolding trimmed_def first_nonspace_def e by simp
  with True show ?thesis by (simp add: strip_Nil_iff)
next
  case False
  let ?t = "dropWhile isspace s"
  from False obtain x where x: "x \<in> set ?t" "\<not> isspace x"
    by (metis dropWhile_eq_Nil_conv hd_dropWhile hd_in_set list_all_iff)
  have "rev s = rev ?t @ rev (takeWhile isspace s)"
    by (metis rev_append takeWhile_dropWhile_id)
  moreover from x have "takeWhile isspace (rev ?t @ rev (takeWhile isspace s)) =
      takeWhile isspace (rev ?t)"
    by (intro takeWhile_append1 [of x]) auto
  ultimately have k: "trailing_space s = length (takeWhile isspace (rev ?t))"
    by (simp add: trailing_space_def)
  have d: "?t = drop (first_nonspace s) s"
    by (simp add: first_nonspace_def dropWhile_eq_drop)
  have l: "length ?t = length s - first_nonspace s"
    by (simp add: first_nonspace_def dropWhile_eq_drop)
  have "strip s = rev (drop (length (takeWhile isspace (rev ?t))) (rev ?t))"
    by (simp add: strip_def rstrip_def lstrip_def dropWhile_eq_drop [symmetric])
  also have "\<dots> = take (length ?t - length (takeWhile isspace (rev ?t))) ?t"
    by (simp add: rev_drop)
  finally show ?thesis
    unfolding trimmed_def k [symmetric] l d [symmetric] .
qed

lemma trimmed_Nil_iff: "trimmed s = [] \<longleftrightarrow> list_all isspace s"
  using strip_Nil_iff [of s] by (simp add: strip_trimmed)

lemma buildFields_spec_Nil: "buildFields_spec known doc_type [] = []"
  by (simp add: buildFields_spec_def)

lemma buildFields_spec_Cons:
  "buildFields_spec known doc_type ((k, v) # items) =
     (case kept_value v of
        None \<Rightarrow> buildFields_spec known doc_type items
      | Some s \<Rightarrow>
          \<lparr>key = k, field_value = s, confidence = (if k \<in> set known then 0.85 else 0.75),
           source = doc_type\<rparr> # buildFields_spec known doc_type items)"
  by (simp add: buildFields_spec_def split: option.splits)

lemma fields_of_items_spec:
  "fields_of_items known doc_type items = buildFields_spec known doc_type items"
proof (induction items)
  case Nil
  show ?case by (simp add: buildFields_spec_Nil)
next
  case (Cons a items)
  obtain k v where a: "a = (k, v)" by (cases a)
  show ?case
    unfolding a buildFields_spec_Cons
    by (cases v)
      (simp_all add: Cons.IH kept_value_def strip_trimmed trimmed_Nil_iff
        BASE_CONFIDENCE_def BOOSTED_CONFIDENCE_def)
qed

lemma fields_of_items_trimmed:
  assumes "f \<in> set (fields_of_items known doc_type items)"
  shows "\<exists>s. (key f, JString s) \<in> set items \<and> field_value f = strip s \<and> strip s \<noteq> []"
  using assms
proof (induction items)
  case Nil
  then show ?case by simp
next
  case (Cons a items)
  obtain k v where a: "a = (k, v)" by (cases a)
  from Cons.prems Cons.IH show ?case
    unfolding a by (cases v) (auto split: if_splits)
qed

lemma interpreter_budget_1:
  "0 < recursion_budget py \<Longrightarrow>
   \<exists>L d. py = \<lparr>int_max_str_digits = L, recursion_budget = Suc d\<rparr>"
  by (cases py) (auto simp: gr0_conv_Suc)

lemma interpreter_budget_2:
  "2 \<le> recursion_budget py \<Longrightarrow>
   \<exists>L d. py = \<lparr>int_max_str_digits = L, recursion_budget = Suc (Suc d)\<rparr>"
proof -
  assume "2 \<le> recursion_budget py"
  then have "recursion_budget py = Suc (Suc (recursion_budget py - 2))" by simp
  then show ?thesis by (cases py) auto
qed

lemma example_fields_parsed:
  "try_parse_json \<lparr>int_max_str_digits = L, recursion_budget = Suc d\<rparr>
     (str ''{\"first_name\":\"Max\",\"last_name\":\"\",\"count\":42}'') =
     Inr (Some [(str ''first_name'', JString (str ''Max'')), (str ''last_name'', JString []),
           (str ''count'', JNumber (str ''42''))])"
  by code_simp

lemma padded_fields_parsed:
  "try_parse_json \<lparr>int_max_str_digits = L, recursion_budget = Suc d\<rparr>
     (str ''{\"first_name\": \"  Max \", \"last_name\": \"\", \"empty_field\": \"   \", \"count\": 42}'') =
     Inr (Some [(str ''first_name'', JString (str ''  Max '')), (str ''last_name'', JString []),
           (str ''empty_field'', JString (str ''   '')), (str ''count'', JNumber (str ''42''))])"
  by code_simp

lemma strip_Max: "strip (str ''Max'') = str ''Max''"
  by code_simp

lemma strip_padded_Max: "strip (str ''  Max '') = str ''Max''"
  by code_simp

lemma strip_blank: "strip (str ''   '') = []"
  by code_simp

text \<open>
  C6. \<open>parse_json_from_response\<close> builds the fields from the parsed object as the
  specification says: pairs whose value is not a string or holds nothing but whitespace
  are dropped, every kept field has the trimmed value, confidence 0.85 for an expected
  key and 0.75 otherwise, and the document type as source, in the object's key order.
  The value of every field it returns is not empty, neither starts nor ends with
  whitespace, and is a string of the parsed object with nothing but whitespace taken
  away at its two ends. For the object \<open>{"first_name":"Max","last_name":"","count":42}\<close>
  and a document type that expects \<open>first_name\<close> the result is the single field for
  \<open>first_name\<close>, and so it is when the name is padded with spaces and a further value
  consists of spaces only.
\<close>

theorem parse_json_from_response_fields:
  "parse_json_from_response py raw doc_type =
     (case try_parse_json py raw of
        Inl e \<Rightarrow> Inl e
      | Inr None \<Rightarrow> Inr []
      | Inr (Some parsed) \<Rightarrow>
          Inr (buildFields_spec (case EXPECTED_KEYS doc_type of Some ks \<Rightarrow> ks | None \<Rightarrow> [])
                 doc_type parsed)) \<and>
   (\<forall>fs f. parse_json_from_response py raw doc_type = Inr fs \<and> f \<in> set fs \<longrightarrow>
      field_value f \<noteq> [] \<and> \<not> isspace (hd (field_value f)) \<and> \<not> isspace (last (field_value f)) \<and>
      (\<exists>parsed s lead trail.
         try_parse_json py raw = Inr (Some parsed) \<and> (key f, JString s) \<in> set parsed \<and>
         s = lead @ field_value f @ trail \<and> list_all isspace lead \<and> list_all isspace trail)) \<and>
   (0 < recursion_budget py \<and> EXPECTED_KEYS doc_type = Some ks \<and> str ''first_name'' \<in> set ks \<longrightarrow>
     parse_json_from_response py
       (str ''{\"first_name\":\"Max\",\"last_name\":\"\",\"count\":42}'') doc_type =
     Inr [\<lparr>key = str ''first_name'', field_value = str ''Max'', confidence = 0.85,
           source = doc_type\<rparr>] \<and>
     parse_json_from_response py
       (str ''{\"first_name\": \"  Max \", \"last_name\": \"\", \"empty_field\": \"   \", \"count\": 42}'')
       doc_type =
     Inr [\<lparr>key = str ''first_name'', field_value = str ''Max'', confidence = 0.85,
           source = doc_type\<rparr>])"
proof (intro conjI allI impI)
  show "parse_json_from_response py raw doc_type =
     (case try_parse_json py raw of
        Inl e \<Rightarrow> Inl e
      | Inr None \<Rightarrow> Inr []
      | Inr (Some parsed) \<Rightarrow>
          Inr (buildFields_spec (case EXPECTED_KEYS doc_type of Some ks \<Rightarrow> ks | None \<Rightarrow> [])
                 doc_type parsed))"
    by (simp add: parse_json_from_response_def fields_of_items_spec
        split: option.splits sum.splits)
next
  fix fs f
  assume a: "parse_json_from_response py raw doc_type = Inr fs \<and> f \<in> set fs"
  then obtain parsed where p: "try_parse_json py raw = Inr (Some parsed)"
    and f: "f \<in> set (fields_of_items
        (case EXPECTED_KEYS doc_type of Some ks \<Rightarrow> ks | None \<Rightarrow> []) doc_type parsed)"
    by (auto simp: parse_json_from_response_def split: option.splits sum.splits)
  from fields_of_items_trimmed [OF f] obtain s where
    s: "(key f, JString s) \<in> set parsed" "field_value f = strip s" "strip s \<noteq> []"
    by blast
  from s show "field_value f \<noteq> []" by simp
  from s strip_ends [of s]
  show "\<not> isspace (hd (field_value f))" "\<not> isspace (last (field_value f))" by simp_all
  have "s = takeWhile isspace s @ field_value f @
      rev (takeWhile isspace (rev (dropWhile isspace s)))"
    unfolding s(2) by (rule strip_decomp)
  moreover have "list_all isspace (takeWhile isspace s)"
    by (auto simp: list_all_iff dest: set_takeWhileD)
  moreover have "list_all isspace (rev (takeWhile isspace (rev (dropWhile isspace s))))"
    by (auto simp: list_all_iff dest: set_takeWhileD)
  ultimately show "\<exists>parsed s lead trail.
         try_parse_json py raw = Inr (Some parsed) \<and> (key f, JString s) \<in> set parsed \<and>
         s = lead @ field_value f @ trail \<and> list_all isspace lead \<and> list_all isspace trail"
    using p s(1) by blast
next
  assume a: "0 < recursion_budget py \<and> EXPECTED_KEYS doc_type = Some ks \<and>
    str ''first_name'' \<in> set ks"
  then obtain L d where py: "py = \<lparr>int_max_str_digits = L, recursion_budget = Suc d\<rparr>"
    using interpreter_budget_1 by blast
  from a show "parse_json_from_response py
       (str ''{\"first_name\":\"Max\",\"last_name\":\"\",\"count\":42}'') doc_type =
     Inr [\<lparr>key = str ''first_name'', field_value = str ''Max'', confidence = 0.85,
           source = doc_type\<rparr>]"
    unfolding py
    by (simp add: parse_json_from_response_def example_fields_parsed strip_Max strip_Nil
        BOOSTED_CONFIDENCE_def) (simp add: str_def)
  from a show "parse_json_from_response py
       (str ''{\"first_name\": \"  Max \", \"last_name\": \"\", \"empty_field\": \"   \", \"count\": 42}'')
       doc_type =
     Inr [\<lparr>key = str ''first_name'', field_value = str ''Max'', confidence = 0.85,
           source = doc_type\<rparr>]"
    unfolding py
    by (simp add: parse_json_from_response_def padded_fields_parsed strip_padded_Max strip_Nil
        strip_blank BOOSTED_CONFIDENCE_def) (simp add: str_def)
qed

lemma personalausweis_expects_first_name:
  "EXPECTED_KEYS (str ''personalausweis'') =
     Some (map str [''first_name'', ''last_name'', ''date_of_birth'', ''birth_place'',
          ''gender'', ''nationality'', ''document_number'', ''expiry_date'',
          ''street'', ''house_number'', ''postal_code'', ''city'', ''document_type''])"
  by (simp add: EXPECTED_KEYS_def)

lemma cpython_budget: "0 < recursion_budget cpython" "2 \<le> recursion_budget cpython"
  by (simp_all add: cpython_def)

theorem parse_json_from_response_fields_witness:
  "0 < recursion_budget cpython \<and>
   EXPECTED_KEYS (str ''personalausweis'') =
     Some (map str [''first_name'', ''last_name'', ''date_of_birth'', ''birth_place'',
          ''gender'', ''nationality'', ''document_number'', ''expiry_date'',
          ''street'', ''house_number'', ''postal_code'', ''city'', ''document_type'']) \<and>
   parse_json_from_response cpython
     (str ''{\"first_name\": \"  Max \", \"last_name\": \"\", \"empty_field\": \"   \", \"count\": 42}'')
     (str ''personalausweis'') =
   Inr [\<lparr>key = str ''first_name'', field_value = str ''Max'', confidence = 0.85,
     source = str ''personalausweis''\<rparr>] \<and>
   \<lparr>key = str ''first_name'', field_value = str ''Max'', confidence = 0.85,
     source = str ''personalausweis''\<rparr> \<in>
     set [\<lparr>key = str ''first_name'', field_value = str ''Max'', confidence = 0.85,
           source = str ''personalausweis''\<rparr>] \<and>
   \<not> isspace (hd (str ''Max'')) \<and> \<not> isspace (last (str ''Max''))"
proof -
  let ?raw = "str ''{\"first_name\": \"  Max \", \"last_name\": \"\", \"empty_field\": \"   \", \"count\": 42}''"
  let ?f = "\<lparr>key = str ''first_name'', field_value = str ''Max'', confidence = 0.85,
     source = str ''personalausweis''\<rparr>"
  note inst = parse_json_from_response_fields [of cpython ?raw "str ''personalausweis''"
      "map str [''first_name'', ''last_name'', ''date_of_birth'', ''birth_place'',
          ''gender'', ''nationality'', ''document_number'', ''expiry_date'',
          ''street'', ''house_number'', ''postal_code'', ''city'', ''document_type'']"]
  have k: "str ''first_name'' \<in> set (map str [''first_name'', ''last_name'', ''date_of_birth'',
      ''birth_place'', ''gender'', ''nationality'', ''document_number'', ''expiry_date'',
      ''street'', ''house_number'', ''postal_code'', ''city'', ''document_type''])"
    by simp
  from inst cpython_budget(1) personalausweis_expects_first_name k
  have r: "parse_json_from_response cpython ?raw (str ''personalausweis'') = Inr [?f]"
    by blast
  have m: "?f \<in> set [?f]" by simp
  from inst r m have "\<not> isspace (hd (field_value ?f)) \<and> \<not> isspace (last (field_value ?f))"
    by blast
  then have "\<not> isspace (hd (str ''Max'')) \<and> \<not> isspace (last (str ''Max''))" by simp
  with cpython_budget(1) personalausweis_expects_first_name r m show ?thesis by blast
qed


lemma no_think_id: "after_first THINK_OPEN raw = None \<Longrightarrow> re_sub_think raw = raw"
  by (induction raw) (auto split: if_splits)

lemma fence_at_space: "isspace c \<Longrightarrow> fence_at (c # cs) = None"
  by (auto simp: fence_at_def FENCE_def str_def isspace_def)

lemma search_fence_lstrip: "search_fence (lstrip s) = search_fence s"
  unfolding lstrip_def by (induction s) (simp_all add: fence_at_space)

lemma search_brace_lstrip: "search_brace (lstrip s) = search_brace s"
  unfolding lstrip_def by (induction s) (auto simp: isspace_def)

lemma startswith_append_other:
  "\<forall>c\<in>set w. c \<notin> set p \<Longrightarrow> startswith p (s @ w) = startswith p s"
proof (induction p s rule: startswith.induct)
  case (1 s)
  show ?case by simp
next
  case (2 p ps)
  then show ?case by (cases w) auto
next
  case (3 p ps c cs)
  then show ?case by auto
qed

lemma startswith_length: "startswith p s \<Longrightarrow> length p \<le> length s"
  by (induction p s rule: startswith.induct) auto

lemma isspace_not_fence: "isspace c \<Longrightarrow> c \<notin> set FENCE"
  by (auto simp: FENCE_def str_def isspace_def)

lemma isspace_not_json: "isspace c \<Longrightarrow> c \<notin> set (str ''json'')"
  by (auto simp: str_def isspace_def)

lemma not_startswith: "a \<notin> set w \<Longrightarrow> \<not> startswith (a # ps) w"
  by (cases w) auto

lemma FENCE_eq: "FENCE = [96, 96, 96]"
  by (simp add: FENCE_def str_def)

lemma ws_no_backtick: "\<forall>c\<in>set w. isspace c \<Longrightarrow> 96 \<notin> set w"
  by (auto simp: isspace_def)

lemma startswith_nl_fence_append:
  assumes "\<forall>c\<in>set w. isspace c"
  shows "startswith (10 # FENCE) (s @ w) = startswith (10 # FENCE) s"
proof (cases s)
  case Nil
  show ?thesis
  proof (cases w)
    case Nil
    with \<open>s = []\<close> show ?thesis by simp
  next
    case (Cons b w')
    with assms have "96 \<notin> set w'" using ws_no_backtick [of w] by auto
    then have "\<not> startswith FENCE w'" unfolding FENCE_eq by (rule not_startswith)
    with Cons \<open>s = []\<close> show ?thesis by simp
  qed
next
  case (Cons c cs)
  then show ?thesis
    using startswith_append_other [of w FENCE cs] assms by (auto simp: isspace_not_fence)
qed

lemma lazy_until_fence_ws: "\<forall>c\<in>set w. isspace c \<Longrightarrow> lazy_until_fence w = None"
proof (induction w)
  case Nil
  show ?case by simp
next
  case (Cons c w)
  then have c: "c \<noteq> 96" and w: "96 \<notin> set w"
    using ws_no_backtick [of "c # w"] by auto
  from w have "\<not> startswith FENCE w" unfolding FENCE_eq by (rule not_startswith)
  with c Cons show ?case by (simp add: FENCE_eq)
qed

lemma lazy_until_fence_append:
  "\<forall>c\<in>set w. isspace c \<Longrightarrow> lazy_until_fence (s @ w) = lazy_until_fence s"
proof (induction s)
  case Nil
  then show ?case by (simp add: lazy_until_fence_ws)
next
  case (Cons c s)
  have "startswith (10 # FENCE) ((c # s) @ w) = startswith (10 # FENCE) (c # s)"
    using Cons.prems by (rule startswith_nl_fence_append)
  moreover have "startswith FENCE ((c # s) @ w) = startswith FENCE (c # s)"
    using Cons.prems by (intro startswith_append_other) (auto simp: isspace_not_fence)
  ultimately show ?case using Cons by simp
qed

lemma drop_startswith_append:
  "startswith p s \<Longrightarrow> drop (length p) (s @ w) = drop (length p) s @ w"
  by (simp add: startswith_length)

lemma fence_at_append:
  assumes w: "\<forall>c\<in>set w. isspace c"
  shows "fence_at (s @ w) = fence_at s"
proof (cases "startswith FENCE s")
  case False
  moreover have "startswith FENCE (s @ w) = startswith FENCE s"
    using w by (intro startswith_append_other) (auto simp: isspace_not_fence)
  ultimately show ?thesis by (simp add: fence_at_def)
next
  case True
  have f: "startswith FENCE (s @ w)"
    using True w startswith_append_other [of w FENCE s] by (auto simp: isspace_not_fence)
  define r where "r = drop (length FENCE) s"
  have r: "drop (length FENCE) (s @ w) = r @ w"
    unfolding r_def using True by (rule drop_startswith_append)
  have j: "startswith (str ''json'') (r @ w) = startswith (str ''json'') r"
    using w by (intro startswith_append_other) (auto simp: isspace_not_json)
  define r' where "r' = (if startswith (str ''json'') r then drop 4 r else r)"
  have r': "(if startswith (str ''json'') (r @ w) then drop 4 (r @ w) else r @ w) = r' @ w"
  proof (cases "startswith (str ''json'') r")
    case True
    from startswith_length [OF this] have "4 \<le> length r" by (simp add: str_def)
    with True show ?thesis unfolding j r'_def by simp
  next
    case False
    then show ?thesis unfolding j r'_def by simp
  qed
  have "lazy_until_fence (dropWhile isspace (r' @ w)) = lazy_until_fence (dropWhile isspace r')"
  proof (cases "\<forall>x\<in>set r'. isspace x")
    case True
    have e: "dropWhile isspace r' = []" using True by simp
    have "dropWhile isspace (r' @ w) = dropWhile isspace w"
      using True by (simp add: dropWhile_append)
    also have "\<dots> = []" using w by simp
    also have "[] = dropWhile isspace r'" by (rule e [symmetric])
    finally show ?thesis by (rule arg_cong)
  next
    case False
    then obtain x where "x \<in> set r'" and "\<not> isspace x" by blast
    then have "dropWhile isspace (r' @ w) = dropWhile isspace r' @ w"
      by (rule dropWhile_append1)
    then show ?thesis by (simp only: lazy_until_fence_append [OF w])
  qed
  moreover have "fence_at (s @ w) = lazy_until_fence (dropWhile isspace (r' @ w))"
    unfolding fence_at_def Let_def by (simp only: f [THEN eqTrueI] r r' if_True)
  moreover have "fence_at s = lazy_until_fence (dropWhile isspace r')"
    unfolding fence_at_def Let_def r'_def r_def by (simp only: True [THEN eqTrueI] if_True)
  ultimately show ?thesis by simp
qed

lemma search_fence_ws: "\<forall>c\<in>set w. isspace c \<Longrightarrow> search_fence w = None"
  by (induction w) (simp_all add: fence_at_space)

lemma search_fence_append:
  "\<forall>c\<in>set w. isspace c \<Longrightarrow> search_fence (s @ w) = search_fence s"
proof (induction s)
  case Nil
  then show ?case by (simp add: search_fence_ws)
next
  case (Cons c s)
  have "fence_at ((c # s) @ w) = fence_at (c # s)"
    using Cons.prems by (rule fence_at_append)
  with Cons show ?case by (simp split: option.splits)
qed

lemma brace_body_append:
  "\<forall>c\<in>set w. isspace c \<Longrightarrow> brace_body (s @ w) = brace_body s"
proof (induction s)
  case Nil
  then show ?case by (induction w) (auto simp: isspace_def)
next
  case (Cons c s)
  then show ?case by simp
qed

lemma search_brace_append:
  "\<forall>c\<in>set w. isspace c \<Longrightarrow> search_brace (s @ w) = search_brace s"
proof (induction s)
  case Nil
  then show ?case by (induction w) (auto simp: isspace_def)
next
  case (Cons c s)
  then show ?case using brace_body_append [of w s] by (simp split: option.splits)
qed

lemma rstrip_decomp: "s = rstrip s @ rev (takeWhile isspace (rev s))"
proof -
  have "rev (dropWhile isspace (rev s)) @ rev (takeWhile isspace (rev s)) =
      rev (takeWhile isspace (rev s) @ dropWhile isspace (rev s))"
    by (simp only: rev_append)
  also have "\<dots> = s" by (simp only: takeWhile_dropWhile_id rev_rev_ident)
  finally show ?thesis by (simp add: rstrip_def)
qed

lemma search_fence_rstrip: "search_fence (rstrip s) = search_fence s"
proof -
  have "\<forall>c\<in>set (rev (takeWhile isspace (rev s))). isspace c"
    by (auto dest: set_takeWhileD)
  from search_fence_append [OF this, of "rstrip s"] rstrip_decomp [of s]
  show ?thesis by simp
qed

lemma search_brace_rstrip: "search_brace (rstrip s) = search_brace s"
proof -
  have "\<forall>c\<in>set (rev (takeWhile isspace (rev s))). isspace c"
    by (auto dest: set_takeWhileD)
  from search_brace_append [OF this, of "rstrip s"] rstrip_decomp [of s]
  show ?thesis by simp
qed

lemma search_fence_strip: "search_fence (strip s) = search_fence s"
  by (simp add: strip_def search_fence_rstrip search_fence_lstrip)

lemma search_brace_strip: "search_brace (strip s) = search_brace s"
  by (simp add: strip_def search_brace_rstrip search_brace_lstrip)

lemma loads_dict_Nil: "loads_dict py [] = Inr None"
  by (simp add: loads_dict_def json_loads_def skip_ws_def)

text \<open>
  C10. On every text that contains no \<open><think>\<close> marker, \<open>try_parse_json\<close> of
  vision-brain and \<open>try_parse_json\<close> of vision-service end in the same way: they
  return the same result or raise the same exception. The vision-brain function
  searches the stripped text and the vision-service function the text as it is, and
  neither search is affected by whitespace at the two ends.
\<close>

theorem brain_service_agree:
  assumes "after_first THINK_OPEN raw = None"
  shows "try_parse_json py raw = vision_service_try_parse_json py raw"
proof (cases "raw = []")
  case True
  then show ?thesis
    by (simp add: try_parse_json_def vision_service_try_parse_json_def strip_Nil loads_dict_Nil)
next
  case False
  then show ?thesis
    by (simp add: try_parse_json_def vision_service_try_parse_json_def Let_def
        no_think_id [OF assms] search_fence_strip search_brace_strip
        cong: option.case_cong sum.case_cong)
qed

lemma array_of_object_parsed:
  "try_parse_json cpython (str ''[{\"a\":\"b\"}]'') = Inr (Some [(str ''a'', JString (str ''b''))])"
  by code_simp

lemma array_of_object_no_think: "after_first THINK_OPEN (str ''[{\"a\":\"b\"}]'') = None"
  by code_simp

theorem brain_service_agree_witness:
  "after_first THINK_OPEN (str ''[{\"a\":\"b\"}]'') = None \<and>
   vision_service_try_parse_json cpython (str ''[{\"a\":\"b\"}]'') =
     Inr (Some [(str ''a'', JString (str ''b''))])"
  using brain_service_agree [OF array_of_object_no_think, of cpython]
  by (simp add: array_of_object_no_think array_of_object_parsed)






lemma search_Nil: "search_fence [] = None" "search_brace [] = None"
  by simp_all







lemma parse_int_number: "parse_int L i = Inr v \<Longrightarrow> \<exists>x. v = JNumber x"
  by (auto simp: parse_int_def Let_def split: if_splits)

lemma parse_int_raises: "parse_int L i = Inl e \<Longrightarrow> e = ValueError"
  by (auto simp: parse_int_def Let_def split: if_splits)

lemma parse_items_array:
  "parse_items L d n acc s = Decoded (v, r) \<Longrightarrow> \<exists>xs. v = JArray xs"
proof (induction n arbitrary: acc s)
  case 0
  then show ?case by simp
next
  case (Suc n)
  from Suc.prems show ?case
    by (auto split: decoded.splits list.splits if_splits prod.splits dest: Suc.IH)
qed

lemma scan_once_object:
  assumes "scan_once L d n s = Decoded (JObject m, r)"
  shows "\<exists>cs. s = 123 # cs"
proof (cases n)
  case 0
  with assms show ?thesis by simp
next
  case (Suc k)
  show ?thesis
  proof (cases s)
    case Nil
    with Suc assms show ?thesis by simp
  next
    case (Cons c cs)
    with Suc assms show ?thesis
      by (auto split: if_splits option.splits list.splits prod.splits sum.splits
          dest: parse_items_array parse_int_number)
  qed
qed

lemma loads_dict_brace: "loads_dict py s = Inr (Some m) \<Longrightarrow> 123 \<in> set s"
proof -
  assume "loads_dict py s = Inr (Some m)"
  then obtain r where
    "scan_once (int_max_str_digits py) (recursion_budget py) (Suc (length s)) (skip_ws s) =
       Decoded (JObject m, r)"
    by (auto simp: loads_dict_def json_loads_def
        split: decoded.splits json.splits if_splits prod.splits)
  from scan_once_object [OF this] obtain cs where "skip_ws s = 123 # cs" ..
  then have "123 \<in> set (skip_ws s)" by simp
  then show ?thesis unfolding skip_ws_def by (rule set_dropWhileD)
qed

lemma decoder_raises:
  "(scan_once L d n s = Raises e \<longrightarrow> e = ValueError \<or> e = RecursionError) \<and>
   (parse_items L d n acc s = Raises e \<longrightarrow> e = ValueError \<or> e = RecursionError) \<and>
   (parse_members L d n mem s = Raises e \<longrightarrow> e = ValueError \<or> e = RecursionError)"
proof (induction n arbitrary: d s acc mem)
  case 0
  show ?case by simp
next
  case (Suc n)
  have S: "e = ValueError \<or> e = RecursionError" if "scan_once L d (Suc n) s = Raises e" for d s
  proof (cases s)
    case Nil
    with that show ?thesis by simp
  next
    case (Cons c cs)
    with that Suc [of "d - 1"] show ?thesis
      by (auto split: if_splits option.splits list.splits prod.splits sum.splits
          dest: parse_int_raises)
  qed
  have I: "e = ValueError \<or> e = RecursionError"
    if "parse_items L d (Suc n) acc s = Raises e" for d acc s
    using that S [of d s] Suc [of d]
    by (auto split: decoded.splits list.splits if_splits prod.splits)
  have M: "e = ValueError \<or> e = RecursionError"
    if "parse_members L d (Suc n) mem s = Raises e" for d mem s
    using that S [of d] Suc [of d]
    by (auto split: decoded.splits list.splits if_splits prod.splits option.splits)
  from S I M show ?case by blast
qed

lemma loads_dict_raises:
  "loads_dict py s = Inl e \<Longrightarrow> e = ValueError \<or> e = RecursionError"
  using decoder_raises [of "int_max_str_digits py" "recursion_budget py" "Suc (length s)"
      "skip_ws s" e]
  by (auto simp: loads_dict_def json_loads_def
      split: decoded.splits json.splits if_splits prod.splits)

lemma try_parse_json_raises:
  "try_parse_json py raw = Inl e \<Longrightarrow> e = ValueError \<or> e = RecursionError"
  by (auto simp: try_parse_json_def Let_def split: if_splits sum.splits option.splits
      dest: loads_dict_raises)

lemma set_strip: "set (strip s) \<subseteq> set s"
  unfolding strip_def rstrip_def lstrip_def
  by (auto dest!: set_dropWhileD)

lemma after_first_subset: "after_first n s = Some r \<Longrightarrow> set r \<subseteq> set s"
proof (induction s)
  case Nil
  then show ?case by (simp split: if_splits)
next
  case (Cons c s)
  then show ?case by (auto split: if_splits dest: in_set_dropD)
qed

lemma set_re_sub_think: "set (re_sub_think s) \<subseteq> set s"
proof (induction s rule: re_sub_think.induct)
  case 1
  show ?case by simp
next
  case (2 c cs)
  show ?case
  proof (cases "startswith THINK_OPEN (c # cs)")
    case False
    with 2 show ?thesis by auto
  next
    case True
    show ?thesis
    proof (cases "after_first THINK_CLOSE (drop (length THINK_OPEN) (c # cs))")
      case None
      with True 2 show ?thesis by auto
    next
      case (Some r)
      from after_first_subset [OF Some] set_drop_subset [of "length THINK_OPEN" "c # cs"]
      have "set r \<subseteq> set (c # cs)" by blast
      moreover from True Some 2 have "set (re_sub_think r) \<subseteq> set r" by blast
      ultimately show ?thesis using True Some by auto
    qed
  qed
qed

lemma lazy_until_fence_subset: "lazy_until_fence s = Some g \<Longrightarrow> set g \<subseteq> set s"
  by (induction s arbitrary: g) (auto split: if_splits)

lemma fence_at_subset: "fence_at s = Some g \<Longrightarrow> set g \<subseteq> set s"
  by (auto simp: fence_at_def Let_def split: if_splits
      dest!: lazy_until_fence_subset dest: set_dropWhileD in_set_dropD)

lemma search_fence_subset: "search_fence s = Some g \<Longrightarrow> set g \<subseteq> set s"
proof (induction s)
  case Nil
  then show ?case by simp
next
  case (Cons c s)
  show ?case
  proof (cases "fence_at (c # s)")
    case None
    with Cons show ?thesis by auto
  next
    case (Some h)
    with Cons.prems have "h = g" by simp
    with fence_at_subset [OF Some] show ?thesis by simp
  qed
qed

lemma search_brace_none: "123 \<notin> set s \<Longrightarrow> search_brace s = None"
  by (induction s) auto

lemma no_brace_no_object:
  assumes "123 \<notin> set raw"
  shows "try_parse_json py raw \<noteq> Inr (Some m)"
proof -
  define cleaned where "cleaned = strip (re_sub_think raw)"
  have c: "123 \<notin> set cleaned"
    using assms set_strip [of "re_sub_think raw"] set_re_sub_think [of raw]
    unfolding cleaned_def by auto
  have 1: "loads_dict py cleaned \<noteq> Inr (Some x)" for x
    using c loads_dict_brace [of py cleaned x] by auto
  have 2: "loads_dict py (strip g) \<noteq> Inr (Some x)" if "search_fence cleaned = Some g" for g x
  proof -
    from search_fence_subset [OF that] set_strip [of g] c have "123 \<notin> set (strip g)" by auto
    then show ?thesis using loads_dict_brace [of py "strip g" x] by auto
  qed
  have 3: "search_brace cleaned = None" using c by (rule search_brace_none)
  show ?thesis
    using 1 2 3 unfolding try_parse_json_def Let_def cleaned_def [symmetric]
    by (auto split: option.splits sum.splits)
qed

lemma no_brace_outcome:
  assumes "123 \<notin> set raw"
  shows "try_parse_json py raw = Inr None \<or> try_parse_json py raw = Inl ValueError \<or>
    try_parse_json py raw = Inl RecursionError"
proof (cases "try_parse_json py raw")
  case (Inl e)
  with try_parse_json_raises [of py raw e] show ?thesis by auto
next
  case (Inr r)
  with no_brace_no_object [OF assms, of py] show ?thesis by (cases r) auto
qed

lemma ex123:
  "try_parse_json \<lparr>int_max_str_digits = L, recursion_budget = Suc d\<rparr> (str ''[1,2,3]'') = Inr None"
  by code_simp

lemma exab_loads: "json_loads cpython (strip (re_sub_think (str ''[{\"a\":\"b\"}]''))) =
  Decoded (JArray [JObject [(str ''a'', JString (str ''b''))]])"
  by code_simp

text \<open>
  C7, as the specification states it, fails: the array \<open>[{"a":"b"}]\<close> is valid JSON
  and not an object, the direct parse is rejected, and the search for the first
  brace-delimited substring then finds the inner object and returns it.
\<close>

theorem array_rejected_counterexample:
  "json_loads cpython (strip (re_sub_think (str ''[{\"a\":\"b\"}]''))) =
     Decoded (JArray [JObject [(str ''a'', JString (str ''b''))]]) \<and>
   try_parse_json cpython (str ''[{\"a\":\"b\"}]'') = Inr (Some [(str ''a'', JString (str ''b''))])"
  using exab_loads array_of_object_parsed by (rule conjI)

text \<open>
  C7, amended. Each strategy accepts a parse result only if it is an object: a text
  that parses as an array or a scalar gives nothing in the strategy that parsed it. A
  text that holds no opening brace never yields an object: \<open>try_parse_json\<close> returns
  none on it, or it lets through the \<open>ValueError\<close> or the \<open>RecursionError\<close> that
  \<open>json.loads\<close> raises when an integer has more digits, or the nesting is deeper,
  than the interpreter allows (\<open>try_parse_json\<close> catches \<open>JSONDecodeError\<close> only).
  On \<open>[1,2,3]\<close> it returns none. A flat object inside an array is still found by the
  later strategies.
\<close>

theorem non_object_rejected:
  "(json_loads py s = Decoded v \<and> (\<forall>m. v \<noteq> JObject m) \<longrightarrow> loads_dict py s = Inr None) \<and>
   (123 \<notin> set raw \<longrightarrow>
      (\<forall>m. try_parse_json py raw \<noteq> Inr (Some m)) \<and>
      (try_parse_json py raw = Inr None \<or> try_parse_json py raw = Inl ValueError \<or>
       try_parse_json py raw = Inl RecursionError)) \<and>
   (0 < recursion_budget py \<longrightarrow> try_parse_json py (str ''[1,2,3]'') = Inr None)"
proof (intro conjI impI allI)
  assume "json_loads py s = Decoded v \<and> (\<forall>m. v \<noteq> JObject m)"
  then show "loads_dict py s = Inr None"
    by (cases v) (simp_all add: loads_dict_def)
next
  fix m
  assume "123 \<notin> set raw"
  then show "try_parse_json py raw \<noteq> Inr (Some m)" by (rule no_brace_no_object)
next
  assume "123 \<notin> set raw"
  then show "try_parse_json py raw = Inr None \<or> try_parse_json py raw = Inl ValueError \<or>
       try_parse_json py raw = Inl RecursionError"
    by (rule no_brace_outcome)
next
  assume "0 < recursion_budget py"
  then obtain L d where py: "py = \<lparr>int_max_str_digits = L, recursion_budget = Suc d\<rparr>"
    using interpreter_budget_1 by blast
  show "try_parse_json py (str ''[1,2,3]'') = Inr None" unfolding py by (rule ex123)
qed

lemma scalar_loads:
  "json_loads cpython (strip (re_sub_think (str ''42''))) = Decoded (JNumber (str ''42''))"
  by code_simp

lemma scalar_none: "try_parse_json cpython (str ''42'') = Inr None"
  by code_simp

theorem non_object_rejected_witness:
  "json_loads cpython (strip (re_sub_think (str ''42''))) = Decoded (JNumber (str ''42'')) \<and>
   123 \<notin> set (str ''42'') \<and>
   0 < recursion_budget cpython \<and>
   loads_dict cpython (strip (re_sub_think (str ''42''))) = Inr None \<and>
   try_parse_json cpython (str ''42'') = Inr None \<and>
   try_parse_json cpython (str ''[1,2,3]'') = Inr None"
proof -
  have b: "123 \<notin> set (str ''42'')" by (simp add: str_def)
  have c: "\<forall>m. JNumber (str ''42'') \<noteq> JObject m" by simp
  from non_object_rejected [of cpython "strip (re_sub_think (str ''42''))" "JNumber (str ''42'')"
      "str ''42''"] scalar_loads b c cpython_budget(1)
  have "loads_dict cpython (strip (re_sub_think (str ''42''))) = Inr None"
    and "try_parse_json cpython (str ''[1,2,3]'') = Inr None"
    by blast+
  with scalar_loads scalar_none b cpython_budget(1) show ?thesis by blast
qed

lemma retry_loop_unavailable:
  assumes "\<And>k. \<exists>d. send_infer client k payload = Inl (GPUServiceUnavailable d)"
  shows "n \<le> m \<Longrightarrow> int m \<ge> retry_attempts client \<Longrightarrow>
         (\<forall>j. n \<le> j \<and> j < m \<longrightarrow> int j < retry_attempts client) \<Longrightarrow>
         outcome (retry_loop client payload n slept) = send_infer client m payload \<and>
         calls (retry_loop client payload n slept) = m"
proof (induction "m - n" arbitrary: n slept)
  case 0
  then have "n = m" by simp
  from assms obtain d where d: "send_infer client m payload = Inl (GPUServiceUnavailable d)"
    by blast
  with 0 \<open>n = m\<close> show ?case by (subst retry_loop.simps, subst retry_loop.simps) simp
next
  case (Suc x)
  then have lt: "n < m" by simp
  with Suc.prems have small: "int n < retry_attempts client" by simp
  from assms obtain d where d: "send_infer client n payload = Inl (GPUServiceUnavailable d)"
    by blast
  have step: "retry_loop client payload n slept =
      retry_loop client payload (Suc n) (slept @ [wait_exponential client n])"
    using d small by (subst retry_loop.simps) simp
  have "outcome (retry_loop client payload (Suc n) (slept @ [wait_exponential client n])) =
          send_infer client m payload \<and>
        calls (retry_loop client payload (Suc n) (slept @ [wait_exponential client n])) = m"
    using Suc.hyps Suc.prems lt by (intro Suc.hyps(1)) auto
  with step show ?case by simp
qed

lemma retry_loop_inv:
  "n \<le> calls (retry_loop client payload n slept) \<and>
   int (calls (retry_loop client payload n slept)) \<le> max (int n) (retry_attempts client) \<and>
   outcome (retry_loop client payload n slept) =
     send_infer client (calls (retry_loop client payload n slept)) payload \<and>
   (\<forall>k. n \<le> k \<and> k < calls (retry_loop client payload n slept) \<longrightarrow>
        (\<exists>d. send_infer client k payload = Inl (GPUServiceUnavailable d)))"
proof (induction client payload n slept rule: retry_loop.induct)
  case (1 client payload n slept)
  show ?case
  proof (cases "send_infer client n payload")
    case (Inr r)
    then show ?thesis by (subst (1 2 3 4 5) retry_loop.simps) auto
  next
    case (Inl e)
    show ?thesis
    proof (cases e)
      case (GPUServiceUnavailable d)
      show ?thesis
      proof (cases "int n \<ge> retry_attempts client")
        case True
        with Inl GPUServiceUnavailable show ?thesis
          by (subst (1 2 3 4 5) retry_loop.simps) auto
      next
        case False
        define r where "r = retry_loop client payload (Suc n) (slept @ [wait_exponential client n])"
        have step: "retry_loop client payload n slept = r"
          unfolding r_def using Inl GPUServiceUnavailable False
          by (subst retry_loop.simps) simp
        from 1 [OF Inl GPUServiceUnavailable False]
        have ih: "Suc n \<le> calls r"
          "int (calls r) \<le> max (int (Suc n)) (retry_attempts client)"
          "outcome r = send_infer client (calls r) payload"
          "\<forall>k. Suc n \<le> k \<and> k < calls r \<longrightarrow>
             (\<exists>d. send_infer client k payload = Inl (GPUServiceUnavailable d))"
          unfolding r_def by blast+
        have "\<exists>d. send_infer client k payload = Inl (GPUServiceUnavailable d)"
          if "n \<le> k" "k < calls r" for k
        proof (cases "k = n")
          case True
          with Inl GPUServiceUnavailable show ?thesis by simp
        next
          case False
          with that ih(4) show ?thesis by (simp add: Suc_le_eq)
        qed
        with ih False show ?thesis unfolding step by auto
      qed
    next
      case (GPUServiceError d)
      with Inl show ?thesis by (subst (1 2 3 4 5) retry_loop.simps) auto
    next
      case (OtherException d)
      with Inl show ?thesis by (subst (1 2 3 4 5) retry_loop.simps) auto
    qed
  qed
qed

text \<open>
  C2. A call of \<open>infer\<close> sends at least one request and at most the configured number
  of them, every request before the last one failed with \<open>GPUServiceUnavailable\<close>
  (nothing else is retried), and what the call returns or raises is what the last
  request gave. With three configured attempts and a backend that is unavailable at
  every request, exactly three requests are sent and the exception of the third is
  raised. When the first request fails with \<open>GPUServiceError\<close>, it is raised after
  that one request.
\<close>

theorem retry_policy:
  "(1 \<le> calls (infer client bs prompt) \<and>
    int (calls (infer client bs prompt)) \<le> max 1 (retry_attempts client) \<and>
    outcome (infer client bs prompt) =
      send_infer client (calls (infer client bs prompt)) (bs, prompt) \<and>
    (\<forall>k. 1 \<le> k \<and> k < calls (infer client bs prompt) \<longrightarrow>
       (\<exists>d. send_infer client k (bs, prompt) = Inl (GPUServiceUnavailable d)))) \<and>
   (retry_attempts client = 3 \<and>
    (\<forall>k. \<exists>d. send_infer client k (bs, prompt) = Inl (GPUServiceUnavailable d)) \<longrightarrow>
      calls (infer client bs prompt) = 3 \<and>
      outcome (infer client bs prompt) = send_infer client 3 (bs, prompt)) \<and>
   (send_infer client 1 (bs, prompt) = Inl (GPUServiceError detail) \<longrightarrow>
      calls (infer client bs prompt) = 1 \<and>
      outcome (infer client bs prompt) = Inl (GPUServiceError detail))"
proof (intro conjI impI)
  note inv = retry_loop_inv [of 1 client "(bs, prompt)" "[]"]
  show "1 \<le> calls (infer client bs prompt)"
    using inv by (simp add: infer_def infer_with_retry_def)
  show "int (calls (infer client bs prompt)) \<le> max 1 (retry_attempts client)"
    using inv by (simp add: infer_def infer_with_retry_def)
  show "outcome (infer client bs prompt) =
      send_infer client (calls (infer client bs prompt)) (bs, prompt)"
    using inv by (simp add: infer_def infer_with_retry_def)
  show "\<forall>k. 1 \<le> k \<and> k < calls (infer client bs prompt) \<longrightarrow>
       (\<exists>d. send_infer client k (bs, prompt) = Inl (GPUServiceUnavailable d))"
    using inv by (simp add: infer_def infer_with_retry_def)
next
  assume a: "retry_attempts client = 3 \<and>
    (\<forall>k. \<exists>d. send_infer client k (bs, prompt) = Inl (GPUServiceUnavailable d))"
  then have u: "\<And>k. \<exists>d. send_infer client k (bs, prompt) = Inl (GPUServiceUnavailable d)"
    by blast
  have "outcome (retry_loop client (bs, prompt) 1 []) = send_infer client 3 (bs, prompt) \<and>
        calls (retry_loop client (bs, prompt) 1 []) = 3"
    using a by (intro retry_loop_unavailable [OF u]) auto
  then show "calls (infer client bs prompt) = 3"
    and "outcome (infer client bs prompt) = send_infer client 3 (bs, prompt)"
    by (simp_all add: infer_def infer_with_retry_def)
next
  assume "send_infer client 1 (bs, prompt) = Inl (GPUServiceError detail)"
  then have "retry_loop client (bs, prompt) 1 [] =
      \<lparr>outcome = Inl (GPUServiceError detail), calls = 1, sleeps = []\<rparr>"
    by (subst retry_loop.simps) simp
  then show "calls (infer client bs prompt) = 1"
    and "outcome (infer client bs prompt) = Inl (GPUServiceError detail)"
    by (simp_all add: infer_def infer_with_retry_def)
qed

lemma backend_503_unavailable:
  "send_infer backend_503 k payload = Inl (GPUServiceUnavailable (str ''Model loading''))"
  by (simp add: send_infer_def backend_503_def get_detail_def bind_def str_def)

lemma backend_500_error:
  "send_infer backend_500 k payload = Inl (GPUServiceError (str ''Internal error''))"
  by (simp add: send_infer_def backend_500_def get_detail_def bind_def str_def)

theorem retry_policy_witness:
  "retry_attempts backend_503 = 3 \<and>
   calls (infer backend_503 [] (str ''prompt'')) = 3 \<and>
   outcome (infer backend_503 [] (str ''prompt'')) =
     Inl (GPUServiceUnavailable (str ''Model loading'')) \<and>
   calls (infer backend_500 [] (str ''prompt'')) = 1 \<and>
   outcome (infer backend_500 [] (str ''prompt'')) =
     Inl (GPUServiceError (str ''Internal error''))"
proof -
  have a: "retry_attempts backend_503 = 3" by (simp add: backend_503_def)
  have u: "\<forall>k. \<exists>d. send_infer backend_503 k ([], str ''prompt'') = Inl (GPUServiceUnavailable d)"
    by (simp add: backend_503_unavailable)
  from retry_policy [of backend_503 "[]" "str ''prompt''" "[]"] a u
  have "calls (infer backend_503 [] (str ''prompt'')) = 3"
    and "outcome (infer backend_503 [] (str ''prompt'')) =
      send_infer backend_503 3 ([], str ''prompt'')"
    by blast+
  moreover from retry_policy [of backend_500 "[]" "str ''prompt''" "str ''Internal error''"]
    backend_500_error [of 1 "([], str ''prompt'')"]
  have "calls (infer backend_500 [] (str ''prompt'')) = 1"
    and "outcome (infer backend_500 [] (str ''prompt'')) =
      Inl (GPUServiceError (str ''Internal error''))"
    by blast+
  ultimately show ?thesis using a by (simp add: backend_503_unavailable)
qed

text \<open>
  C4. For a document type with no registered prompt, \<open>extract_from_image\<close> returns a
  response with no field, the one warning that ends in the name of the document type
  and \<open>processing_time_ms = 0\<close>, and neither calls \<open>preprocess\<close> nor sends a request.
\<close>

theorem unknown_document_type:
  "PROMPTS texts doc_type = None \<longrightarrow>
     extract_from_image py texts cv clock image_bytes doc_type gpu_client_infer =
       \<lparr>returned = Inr \<lparr>document_type = doc_type, field_list = [],
                         warnings = [str ''No prompt defined for document type: '' @ doc_type],
                         processing_time_ms = 0\<rparr>,
        preprocess_calls = 0, network_calls = 0\<rparr>"
  by (simp add: extract_from_image_def)

lemma unknown_type_unregistered: "PROMPTS texts (str ''unknown_type'') = None"
  by (simp add: PROMPTS_def str_def)

theorem unknown_document_type_witness:
  "PROMPTS (\<lambda>d. []) (str ''unknown_type'') = None \<and>
   extract_from_image cpython (\<lambda>d. []) (cv_cards []) (0, 0) [1, 2, 3, 4] (str ''unknown_type'')
       (infer backend_503) =
     \<lparr>returned = Inr \<lparr>document_type = str ''unknown_type'', field_list = [],
                       warnings = [str ''No prompt defined for document type: '' @ str ''unknown_type''],
                       processing_time_ms = 0\<rparr>,
      preprocess_calls = 0, network_calls = 0\<rparr>"
proof -
  have p: "PROMPTS (\<lambda>d. []) (str ''unknown_type'') = None"
    by (rule unknown_type_unregistered)
  from p unknown_document_type [of "\<lambda>d. []" "str ''unknown_type''" cpython "cv_cards []" "(0, 0)"
      "[1, 2, 3, 4]" "infer backend_503", THEN mp, OF p]
  show ?thesis by (rule conjI)
qed

text \<open>
  C1. Every response that \<open>extract_from_image\<close> returns has a warning exactly when it
  has no field, and then exactly one. The responses without a field are those of the
  four failures: no prompt for the document type, \<open>GPUServiceUnavailable\<close> or
  \<open>GPUServiceError\<close> raised by the client, and no field parsed from the model's text.
  A response with a field has no warning. When the parser raises on the model's text,
  its exception leaves \<open>extract_from_image\<close> and no response is returned.
\<close>

theorem warnings_iff_no_fields:
  "(returned (extract_from_image py texts cv clock image_bytes doc_type gpu_client_infer) = Inr r \<longrightarrow>
      (warnings r \<noteq> [] \<longleftrightarrow> field_list r = []) \<and>
      (field_list r = [] \<longrightarrow> length (warnings r) = 1) \<and>
      (field_list r \<noteq> [] \<longrightarrow> warnings r = [])) \<and>
   (PROMPTS texts doc_type = None \<longrightarrow>
      (\<exists>r. returned (extract_from_image py texts cv clock image_bytes doc_type gpu_client_infer) = Inr r \<and>
           field_list r = [] \<and> length (warnings r) = 1)) \<and>
   (PROMPTS texts doc_type = Some prompt \<and> preprocess cv image_bytes = Inr preprocessed \<longrightarrow>
      (\<forall>e. outcome (gpu_client_infer preprocessed prompt) = Inl (GPUServiceUnavailable e) \<longrightarrow>
         (\<exists>r. returned (extract_from_image py texts cv clock image_bytes doc_type gpu_client_infer) = Inr r \<and>
              field_list r = [] \<and>
              warnings r = [str ''GPU inference service unavailable: '' @ e])) \<and>
      (\<forall>e. outcome (gpu_client_infer preprocessed prompt) = Inl (GPUServiceError e) \<longrightarrow>
         (\<exists>r. returned (extract_from_image py texts cv clock image_bytes doc_type gpu_client_infer) = Inr r \<and>
              field_list r = [] \<and> warnings r = [str ''GPU inference failed: '' @ e])) \<and>
      (\<forall>raw_text ms fs.
         outcome (gpu_client_infer preprocessed prompt) = Inr (raw_text, ms) \<and>
         parse_json_from_response py raw_text doc_type = Inr fs \<longrightarrow>
         (\<exists>r. returned (extract_from_image py texts cv clock image_bytes doc_type gpu_client_infer) = Inr r \<and>
              field_list r = fs \<and>
              (fs = [] \<longrightarrow> length (warnings r) = 1) \<and>
              (fs \<noteq> [] \<longrightarrow> warnings r = []))) \<and>
      (\<forall>raw_text ms e.
         outcome (gpu_client_infer preprocessed prompt) = Inr (raw_text, ms) \<and>
         parse_json_from_response py raw_text doc_type = Inl e \<longrightarrow>
         returned (extract_from_image py texts cv clock image_bytes doc_type gpu_client_infer) = Inl e))"
  by (auto simp: extract_from_image_def Let_def
      split: option.splits sum.splits exn.splits prod.splits if_splits)

lemma undecodable_unchanged: "preprocess (cv_cards []) [1] = Inr [1]"
  by (simp add: preprocess_def decode_def cv_cards_def toy_imdecode_def)

lemma personalausweis_registered:
  "PROMPTS texts (str ''personalausweis'') = Some (texts (str ''personalausweis''))"
  by (simp add: PROMPTS_def)

lemma backend_503_exhausts:
  "outcome (infer backend_503 bs prompt) = Inl (GPUServiceUnavailable (str ''Model loading'')) \<and>
   calls (infer backend_503 bs prompt) = 3"
proof -
  have a: "\<And>k. \<exists>d. send_infer backend_503 k (bs, prompt) = Inl (GPUServiceUnavailable d)"
    by (simp add: backend_503_unavailable)
  have b: "int 3 \<ge> retry_attempts backend_503"
    and c: "\<forall>j. 1 \<le> j \<and> j < 3 \<longrightarrow> int j < retry_attempts backend_503"
    by (simp_all add: backend_503_def)
  have "outcome (retry_loop backend_503 (bs, prompt) 1 []) =
          send_infer backend_503 3 (bs, prompt) \<and>
        calls (retry_loop backend_503 (bs, prompt) 1 []) = 3"
    using b c by (intro retry_loop_unavailable [OF a]) auto
  then show ?thesis
    by (simp add: infer_def infer_with_retry_def backend_503_unavailable)
qed

theorem warnings_iff_no_fields_witness:
  "PROMPTS (\<lambda>d. str ''prompt'') (str ''personalausweis'') = Some (str ''prompt'') \<and>
   preprocess (cv_cards []) [1] = Inr [1] \<and>
   outcome (infer backend_503 [1] (str ''prompt'')) = Inl (GPUServiceUnavailable (str ''Model loading'')) \<and>
   (\<exists>r. returned (extract_from_image cpython (\<lambda>d. str ''prompt'') (cv_cards []) (0, 1) [1]
                    (str ''personalausweis'') (infer backend_503)) = Inr r \<and>
        field_list r = [] \<and>
        warnings r = [str ''GPU inference service unavailable: '' @ str ''Model loading''])"
proof -
  have p: "PROMPTS (\<lambda>d. str ''prompt'') (str ''personalausweis'') = Some (str ''prompt'')"
    by (rule personalausweis_registered)
  have o: "outcome (infer backend_503 [1] (str ''prompt'')) =
      Inl (GPUServiceUnavailable (str ''Model loading''))"
    by (simp add: backend_503_exhausts)
  from warnings_iff_no_fields [of cpython "\<lambda>d. str ''prompt''" "cv_cards []" "(0, 1)" "[1]"
      "str ''personalausweis''" "infer backend_503" _ "str ''prompt''" "[1]"]
    p undecodable_unchanged o
  show ?thesis by blast
qed

text \<open>
  C3, amended. \<open>preprocess\<close> raises only what the image decoder itself raises: every
  later stage keeps its failures to itself. When the decoder returns no image, the
  input bytes are returned as they are; when it returns an image, bytes are returned.
\<close>

theorem preprocess_fail_open:
  "(cv_imdecode cv image_bytes = Inr None \<longrightarrow> preprocess cv image_bytes = Inr image_bytes) \<and>
   (\<forall>e. preprocess cv image_bytes = Inl e \<longleftrightarrow> cv_imdecode cv image_bytes = Inl e) \<and>
   (\<forall>r. cv_imdecode cv image_bytes = Inr r \<longrightarrow> (\<exists>out. preprocess cv image_bytes = Inr out))"
  by (auto simp: preprocess_def decode_def split: sum.splits option.splits)

text \<open>
  C3, as the specification states it, fails on the empty byte sequence: \<open>_decode\<close> has
  no \<open>try\<close>, OpenCV's decoder raises on an empty buffer, and the exception leaves
  \<open>preprocess\<close>. (The upload handler rejects an empty file before the pipeline runs.)
\<close>

theorem empty_bytes_counterexample:
  "preprocess (cv_cards []) [] =
     Inl (OtherException (str ''cv2.error: !buf.empty() in function imdecode_''))"
  by (simp add: preprocess_def decode_def cv_cards_def toy_imdecode_def)

lemma undecodable_None: "cv_imdecode (cv_cards []) [1] = Inr None"
  by (simp add: cv_cards_def toy_imdecode_def)

theorem preprocess_fail_open_witness:
  "cv_imdecode (cv_cards []) [1] = Inr None \<and> preprocess (cv_cards []) [1] = Inr [1]"
proof -
  from preprocess_fail_open [of "cv_cards []" "[1]"] undecodable_None
  have "preprocess (cv_cards []) [1] = Inr [1]" by blast
  with undecodable_None show ?thesis by (rule conjI)
qed

lemma within_tolerance_bound:
  assumes "within_tolerance i"
  shows "cols i \<le> 1126 \<and> rows i \<le> 1126"
proof (cases "cols i > rows i")
  case True
  with assms have "\<bar>real (cols i) - 1024\<bar> / 1024 < 0.1" "\<bar>real (rows i) - 768\<bar> / 768 < 0.1"
    by (simp_all add: within_tolerance_def resize_target_def TARGET_LANDSCAPE_def)
  then have "real (cols i) < 1127" "real (rows i) < 1127" by (simp_all add: abs_if split: if_splits)
  then show ?thesis by simp
next
  case False
  with assms have "\<bar>real (cols i) - 768\<bar> / 768 < 0.1" "\<bar>real (rows i) - 1024\<bar> / 1024 < 0.1"
    by (simp_all add: within_tolerance_def resize_target_def TARGET_PORTRAIT_def)
  then have "real (cols i) < 1127" "real (rows i) < 1127" by (simp_all add: abs_if split: if_splits)
  then show ?thesis by simp
qed

lemma resize_target_cases:
  "resize_target i = (if cols i > rows i then (1024, 768) else (768, 1024))"
  by (simp add: resize_target_def TARGET_LANDSCAPE_def TARGET_PORTRAIT_def)

lemma resize_skip: "within_tolerance i \<Longrightarrow> resize cv i = i"
  by (simp add: resize_def)

lemma resize_done:
  "\<not> within_tolerance i \<Longrightarrow> cv_resize cv i (resize_target i) = Inr out \<Longrightarrow> resize cv i = out"
  by (simp add: resize_def)

lemma resize_contractD:
  "resize_contract cv \<Longrightarrow> cv_resize cv i dsize = Inr out \<Longrightarrow>
   cols out = fst dsize \<and> rows out = snd dsize"
  unfolding resize_contract_def by blast

lemma resize_bounded:
  assumes "resize_contract cv"
    and "within_tolerance i \<or> (\<exists>out. cv_resize cv i (resize_target i) = Inr out)"
  shows "cols (resize cv i) \<le> 1126 \<and> rows (resize cv i) \<le> 1126"
proof (cases "within_tolerance i")
  case True
  then show ?thesis using within_tolerance_bound [of i] by (simp add: resize_skip)
next
  case False
  with assms(2) obtain out where out: "cv_resize cv i (resize_target i) = Inr out" by blast
  with assms(1) have "cols out = fst (resize_target i)" "rows out = snd (resize_target i)"
    by (auto dest: resize_contractD)
  then have "cols out \<le> 1126 \<and> rows out \<le> 1126"
    by (simp add: resize_target_cases)
  with False out show ?thesis by (simp add: resize_done)
qed

lemma resize_target_bound: "fst (resize_target i) \<le> 1024 \<and> snd (resize_target i) \<le> 1024"
  by (simp add: resize_target_cases)

text \<open>
  C8. The resize stage picks 1024x768 for a landscape image and 768x1024 otherwise. It
  leaves the image as it is when its width and height are both less than 10% off the
  target, and only then: every other image is handed to \<open>cv2.resize\<close> with the
  target size, and the image that comes back has that size. So for every decoded image
  that reaches the resize stage outside the skip tolerance, \<open>preprocess\<close> returns bytes
  that decode to an image of the target size, with no side above 1024; the calls of
  \<open>cv2.resize\<close> and \<open>cv2.imencode\<close> are taken to succeed, as they do on a decoded
  image. An image within the skip tolerance comes back in its own size, which can
  exceed 1024 (up to 1126).
\<close>

theorem resize_stage_bound:
  "resize_target i = (if cols i > rows i then (1024, 768) else (768, 1024)) \<and>
   (within_tolerance i \<longleftrightarrow>
      \<bar>real (cols i) - real (fst (resize_target i))\<bar> / real (fst (resize_target i)) < 0.1 \<and>
      \<bar>real (rows i) - real (snd (resize_target i))\<bar> / real (snd (resize_target i)) < 0.1) \<and>
   (within_tolerance i \<longrightarrow> resize cv i = i \<and> cols i \<le> 1126 \<and> rows i \<le> 1126) \<and>
   (\<not> within_tolerance i \<longrightarrow>
      resize cv i = (case cv_resize cv i (resize_target i) of Inl e \<Rightarrow> i | Inr out \<Rightarrow> out)) \<and>
   (\<not> within_tolerance i \<and> resize_contract cv \<and> cv_resize cv i (resize_target i) = Inr out \<longrightarrow>
      resize cv i = out \<and> (cols out, rows out) = resize_target i \<and>
      max (rows out) (cols out) \<le> 1024) \<and>
   (cv_imdecode cv image_bytes = Inr (Some img) \<and> resize_contract cv \<and> codec_contract cv \<and>
    \<not> within_tolerance (staged cv img) \<and>
    (\<exists>out. cv_resize cv (staged cv img) (resize_target (staged cv img)) = Inr out) \<and>
    (\<exists>buf. cv_imencode_jpg cv (resize cv (staged cv img)) = Inr (True, buf)) \<longrightarrow>
      (\<exists>out i'. preprocess cv image_bytes = Inr out \<and> cv_imdecode cv out = Inr (Some i') \<and>
         (cols i', rows i') = resize_target (staged cv img) \<and>
         max (rows i') (cols i') \<le> 1024)) \<and>
   (cv_imdecode cv image_bytes = Inr (Some img) \<and> codec_contract cv \<and>
    within_tolerance (staged cv img) \<and>
    (\<exists>buf. cv_imencode_jpg cv (resize cv (staged cv img)) = Inr (True, buf)) \<longrightarrow>
      (\<exists>out i'. preprocess cv image_bytes = Inr out \<and> cv_imdecode cv out = Inr (Some i') \<and>
         cols i' = cols (staged cv img) \<and> rows i' = rows (staged cv img) \<and>
         max (rows i') (cols i') \<le> 1126))"
proof (intro conjI impI)
  show "resize_target i = (if cols i > rows i then (1024, 768) else (768, 1024))"
    by (rule resize_target_cases)
next
  show "within_tolerance i \<longleftrightarrow>
      \<bar>real (cols i) - real (fst (resize_target i))\<bar> / real (fst (resize_target i)) < 0.1 \<and>
      \<bar>real (rows i) - real (snd (resize_target i))\<bar> / real (snd (resize_target i)) < 0.1"
    by (simp add: within_tolerance_def split: prod.splits)
next
  assume "within_tolerance i"
  then show "resize cv i = i" "cols i \<le> 1126" "rows i \<le> 1126"
    using within_tolerance_bound [of i] by (simp_all add: resize_skip)
next
  assume "\<not> within_tolerance i"
  then show "resize cv i = (case cv_resize cv i (resize_target i) of Inl e \<Rightarrow> i | Inr out \<Rightarrow> out)"
    by (simp add: resize_def split: sum.splits)
next
  assume a: "\<not> within_tolerance i \<and> resize_contract cv \<and> cv_resize cv i (resize_target i) = Inr out"
  then show "resize cv i = out" by (simp add: resize_done)
  from a show s: "(cols out, rows out) = resize_target i"
    by (auto dest: resize_contractD simp: prod_eq_iff)
  from resize_target_bound [of i] show "max (rows out) (cols out) \<le> 1024"
    unfolding s [symmetric] by simp
next
  assume a: "cv_imdecode cv image_bytes = Inr (Some img) \<and> resize_contract cv \<and> codec_contract cv \<and>
    \<not> within_tolerance (staged cv img) \<and>
    (\<exists>out. cv_resize cv (staged cv img) (resize_target (staged cv img)) = Inr out) \<and>
    (\<exists>buf. cv_imencode_jpg cv (resize cv (staged cv img)) = Inr (True, buf))"
  then obtain buf where buf: "cv_imencode_jpg cv (resize cv (staged cv img)) = Inr (True, buf)"
    by blast
  from a obtain out where out: "cv_resize cv (staged cv img) (resize_target (staged cv img)) = Inr out"
    by blast
  with a have r: "resize cv (staged cv img) = out" by (simp add: resize_done)
  from a out have s: "cols out = fst (resize_target (staged cv img))"
    "rows out = snd (resize_target (staged cv img))"
    by (auto dest: resize_contractD)
  from a buf obtain i' where i': "cv_imdecode cv buf = Inr (Some i')"
    "rows i' = rows (resize cv (staged cv img))" "cols i' = cols (resize cv (staged cv img))"
    unfolding codec_contract_def by blast
  from i' r s have t: "(cols i', rows i') = resize_target (staged cv img)"
    by (simp add: prod_eq_iff)
  from resize_target_bound [of "staged cv img"] have "max (rows i') (cols i') \<le> 1024"
    unfolding t [symmetric] by simp
  moreover from a buf have "preprocess cv image_bytes = Inr buf"
    by (simp add: preprocess_def decode_def encode_def staged_def)
  ultimately show "\<exists>out i'. preprocess cv image_bytes = Inr out \<and>
      cv_imdecode cv out = Inr (Some i') \<and> (cols i', rows i') = resize_target (staged cv img) \<and>
      max (rows i') (cols i') \<le> 1024"
    using i'(1) t by blast
next
  assume a: "cv_imdecode cv image_bytes = Inr (Some img) \<and> codec_contract cv \<and>
    within_tolerance (staged cv img) \<and>
    (\<exists>buf. cv_imencode_jpg cv (resize cv (staged cv img)) = Inr (True, buf))"
  then obtain buf where buf: "cv_imencode_jpg cv (resize cv (staged cv img)) = Inr (True, buf)"
    by blast
  from a have r: "resize cv (staged cv img) = staged cv img" by (simp add: resize_skip)
  from a buf obtain i' where i': "cv_imdecode cv buf = Inr (Some i')"
    "rows i' = rows (resize cv (staged cv img))" "cols i' = cols (resize cv (staged cv img))"
    unfolding codec_contract_def by blast
  from a within_tolerance_bound [of "staged cv img"] i' r
  have "max (rows i') (cols i') \<le> 1126" by simp
  moreover from a buf have "preprocess cv image_bytes = Inr buf"
    by (simp add: preprocess_def decode_def encode_def staged_def)
  ultimately show "\<exists>out i'. preprocess cv image_bytes = Inr out \<and>
      cv_imdecode cv out = Inr (Some i') \<and>
      cols i' = cols (staged cv img) \<and> rows i' = rows (staged cv img) \<and>
      max (rows i') (cols i') \<le> 1126"
    using i' r by auto
qed

lemma plain_crop: "crop_document (cv_cards []) i = i"
  by (simp add: crop_document_def crop_try_def detect_contours_def cv_cards_def bind_def)

lemma plain_deskew: "deskew (cv_cards []) i = i"
  by (simp add: deskew_def deskew_try_def cv_cards_def bind_def)

lemma plain_clahe: "clahe_normalize (cv_cards []) i = i"
  by (simp add: clahe_normalize_def cv_cards_def bind_def)

lemma plain_staged: "staged (cv_cards []) i = i"
  by (simp add: staged_def plain_crop plain_deskew plain_clahe)

lemma photo_1100_decoded:
  "cv_imdecode (cv_cards []) [3, 32, 4, 76] = Inr (Some \<lparr>rows = 800, cols = 1100, pixels = []\<rparr>)"
  by (simp add: cv_cards_def toy_imdecode_def)

lemma photo_1100_tolerated: "within_tolerance \<lparr>rows = 800, cols = 1100, pixels = []\<rparr>"
  by (simp add: within_tolerance_def resize_target_def TARGET_LANDSCAPE_def)

lemma photo_1100_encoded:
  "cv_imencode_jpg (cv_cards []) \<lparr>rows = 800, cols = 1100, pixels = []\<rparr> = Inr (True, [3, 32, 4, 76])"
  by (simp add: cv_cards_def toy_imencode_def)

lemma cards_resize_contract: "resize_contract (cv_cards found)"
  by (simp add: resize_contract_def cv_cards_def split: prod.splits)

lemma cards_warp_contract: "warp_contract (cv_cards found)"
  by (simp add: warp_contract_def cv_cards_def split: prod.splits)

lemma byte_of_small: "n < 256 \<Longrightarrow> unat (of_nat n :: 8 word) = n"
  by (simp add: unat_of_nat take_bit_nat_eq_self)

lemma cards_codec_contract: "codec_contract (cv_cards found)"
proof -
  have "256 * (n div 256) + n mod 256 = n" for n :: nat by simp
  moreover have "n div 256 < 256" "n mod 256 < 256" if "n < 65536" for n :: nat
    using that by simp_all
  ultimately show ?thesis
    by (auto simp: codec_contract_def cv_cards_def toy_imencode_def toy_imdecode_def
        byte_of_small split: if_splits)
qed

lemma photo_3000_decoded:
  "cv_imdecode (cv_cards []) [7, 208, 11, 184] =
     Inr (Some \<lparr>rows = 2000, cols = 3000, pixels = []\<rparr>)"
  by (simp add: cv_cards_def toy_imdecode_def)

lemma photo_3000_resized:
  "cv_resize (cv_cards []) \<lparr>rows = 2000, cols = 3000, pixels = []\<rparr>
     (resize_target \<lparr>rows = 2000, cols = 3000, pixels = []\<rparr>) =
   Inr \<lparr>rows = 768, cols = 1024, pixels = []\<rparr>"
  by (simp add: cv_cards_def resize_target_def TARGET_LANDSCAPE_def)

lemma photo_3000_not_tolerated: "\<not> within_tolerance \<lparr>rows = 2000, cols = 3000, pixels = []\<rparr>"
  by (simp add: within_tolerance_def resize_target_def TARGET_LANDSCAPE_def)

lemma photo_1024_encoded:
  "cv_imencode_jpg (cv_cards []) \<lparr>rows = 768, cols = 1024, pixels = []\<rparr> = Inr (True, [3, 0, 4, 0])"
  by (simp add: cv_cards_def toy_imencode_def)

lemma photo_1100_skipped:
  "preprocess (cv_cards []) [3, 32, 4, 76] = Inr [3, 32, 4, 76]"
  by (simp add: preprocess_def decode_def photo_1100_decoded plain_crop plain_deskew plain_clahe
      resize_def photo_1100_tolerated encode_def photo_1100_encoded)

theorem resize_stage_bound_witness:
  "cv_imdecode (cv_cards []) [7, 208, 11, 184] =
     Inr (Some \<lparr>rows = 2000, cols = 3000, pixels = []\<rparr>) \<and>
   resize_contract (cv_cards []) \<and> codec_contract (cv_cards []) \<and>
   \<not> within_tolerance (staged (cv_cards []) \<lparr>rows = 2000, cols = 3000, pixels = []\<rparr>) \<and>
   cv_resize (cv_cards []) \<lparr>rows = 2000, cols = 3000, pixels = []\<rparr>
     (resize_target \<lparr>rows = 2000, cols = 3000, pixels = []\<rparr>) =
     Inr \<lparr>rows = 768, cols = 1024, pixels = []\<rparr> \<and>
   resize (cv_cards []) \<lparr>rows = 2000, cols = 3000, pixels = []\<rparr> =
     \<lparr>rows = 768, cols = 1024, pixels = []\<rparr> \<and>
   (\<exists>out i'. preprocess (cv_cards []) [7, 208, 11, 184] = Inr out \<and>
      cv_imdecode (cv_cards []) out = Inr (Some i') \<and> max (rows i') (cols i') \<le> 1024) \<and>
   cv_imdecode (cv_cards []) [3, 32, 4, 76] = Inr (Some \<lparr>rows = 800, cols = 1100, pixels = []\<rparr>) \<and>
   within_tolerance (staged (cv_cards []) \<lparr>rows = 800, cols = 1100, pixels = []\<rparr>) \<and>
   (\<exists>out i'. preprocess (cv_cards []) [3, 32, 4, 76] = Inr out \<and>
      cv_imdecode (cv_cards []) out = Inr (Some i') \<and> cols i' = 1100 \<and> rows i' = 800)"
proof -
  let ?img = "\<lparr>rows = 2000, cols = 3000, pixels = []\<rparr>"
  let ?out = "\<lparr>rows = 768, cols = 1024, pixels = []\<rparr>"
  let ?near = "\<lparr>rows = 800, cols = 1100, pixels = []\<rparr>"
  note inst = resize_stage_bound [of ?img "cv_cards []" ?out "[7, 208, 11, 184]" ?img]
  note near = resize_stage_bound [of ?near "cv_cards []" ?out "[3, 32, 4, 76]" ?near]
  have r: "resize (cv_cards []) ?img = ?out"
    using inst photo_3000_not_tolerated cards_resize_contract photo_3000_resized by blast
  have n: "\<not> within_tolerance (staged (cv_cards []) ?img)"
    unfolding plain_staged by (rule photo_3000_not_tolerated)
  have "\<exists>buf. cv_imencode_jpg (cv_cards []) (resize (cv_cards []) (staged (cv_cards []) ?img)) =
      Inr (True, buf)"
    unfolding plain_staged r using photo_1024_encoded by blast
  moreover have "\<exists>out. cv_resize (cv_cards []) (staged (cv_cards []) ?img)
      (resize_target (staged (cv_cards []) ?img)) = Inr out"
    unfolding plain_staged using photo_3000_resized by blast
  ultimately have big: "\<exists>out i'. preprocess (cv_cards []) [7, 208, 11, 184] = Inr out \<and>
      cv_imdecode (cv_cards []) out = Inr (Some i') \<and> max (rows i') (cols i') \<le> 1024"
    using inst n photo_3000_decoded cards_resize_contract cards_codec_contract by blast
  have t: "within_tolerance (staged (cv_cards []) ?near)"
    unfolding plain_staged by (rule photo_1100_tolerated)
  have k: "resize (cv_cards []) ?near = ?near"
    using near photo_1100_tolerated by blast
  have "\<exists>buf. cv_imencode_jpg (cv_cards []) (resize (cv_cards []) (staged (cv_cards []) ?near)) =
      Inr (True, buf)"
    unfolding plain_staged k using photo_1100_encoded by blast
  with near t photo_1100_decoded cards_codec_contract
  have "\<exists>out i'. preprocess (cv_cards []) [3, 32, 4, 76] = Inr out \<and>
      cv_imdecode (cv_cards []) out = Inr (Some i') \<and>
      cols i' = cols (staged (cv_cards []) ?near) \<and> rows i' = rows (staged (cv_cards []) ?near)"
    by blast
  then have small: "\<exists>out i'. preprocess (cv_cards []) [3, 32, 4, 76] = Inr out \<and>
      cv_imdecode (cv_cards []) out = Inr (Some i') \<and> cols i' = 1100 \<and> rows i' = 800"
    unfolding plain_staged by simp
  from big small r n t photo_3000_decoded photo_3000_resized photo_1100_decoded
    cards_resize_contract cards_codec_contract
  show ?thesis by blast
qed

lemma warp_contractD:
  "warp_contract cv \<Longrightarrow> cv_warpPerspective cv i m dsize = Inr out \<Longrightarrow>
   cols out = fst dsize \<and> rows out = snd dsize"
  unfolding warp_contract_def by blast

lemma perspective_transform_small:
  "max_width rect < 100 \<or> max_height rect < 100 \<Longrightarrow> perspective_transform cv img rect = Inr None"
  by (simp add: perspective_transform_def Let_def)

lemma perspective_transform_Some:
  assumes "warp_contract cv" and "perspective_transform cv img rect = Inr (Some out)"
  shows "100 \<le> cols out \<and> 100 \<le> rows out"
proof -
  from assms(2) have big: "\<not> (max_width rect < 100 \<or> max_height rect < 100)"
    by (auto simp: perspective_transform_def Let_def)
  with assms(2) obtain m where
    "cv_warpPerspective cv img m (max_width rect, max_height rect) = Inr out"
    by (auto simp: perspective_transform_def Let_def bind_def split: sum.splits)
  from warp_contractD [OF assms(1) this] big show ?thesis by simp
qed

lemma crop_candidates_result:
  assumes "warp_contract cv"
  shows "crop_candidates cv img cs = Inr out \<Longrightarrow>
         out = img \<or> (100 \<le> cols out \<and> 100 \<le> rows out)"
proof (induction cs)
  case Nil
  then show ?case by simp
next
  case (Cons c cs)
  from Cons.prems show ?case
    by (auto simp: bind_def split: sum.splits if_splits option.splits
        dest: Cons.IH perspective_transform_Some [OF assms])
qed

lemma crop_document_result:
  assumes "warp_contract cv"
  shows "crop_document cv img = img \<or>
         (100 \<le> cols (crop_document cv img) \<and> 100 \<le> rows (crop_document cv img))"
proof (cases "crop_try cv img")
  case (Inl e)
  then show ?thesis by (simp add: crop_document_def)
next
  case (Inr out)
  then have "out = img \<or> (\<exists>cs. crop_candidates cv img cs = Inr out)"
    by (auto simp: crop_try_def bind_def split: sum.splits if_splits)
  with crop_candidates_result [OF assms] have "out = img \<or> (100 \<le> cols out \<and> 100 \<le> rows out)"
    by blast
  with Inr show ?thesis by (simp add: crop_document_def)
qed

lemma crop_candidates_all_small:
  "\<forall>c\<in>set cs. too_small cv c \<Longrightarrow> crop_candidates cv img cs = Inr out \<Longrightarrow> out = img"
proof (induction cs)
  case Nil
  then show ?case by simp
next
  case (Cons c cs)
  have c: "too_small cv c" and rest: "\<forall>c\<in>set cs. too_small cv c"
    using Cons.prems(1) by simp_all
  have small: "perspective_transform cv img (order_points approx) = Inr None"
    if "cv_arcLength cv c = Inr peri" "cv_approxPolyDP cv c (0.02 * peri) = Inr approx"
      "length approx = 4" for peri approx
    using c that unfolding too_small_def by (intro perspective_transform_small) blast
  from Cons.prems(2) show ?case
    by (auto simp: bind_def small split: sum.splits if_splits option.splits
        dest: Cons.IH [OF rest])
qed

lemma mapM_length: "mapM f xs = Inr ys \<Longrightarrow> length ys = length xs"
  by (induction xs arbitrary: ys) (auto simp: bind_def split: sum.splits)

lemma sorted_by_area_subset: "sorted_by_area cv cs = Inr ordered \<Longrightarrow> set ordered \<subseteq> set cs"
  by (auto simp: sorted_by_area_def bind_def split: sum.splits) (erule set_zip_rightD)

lemma crop_document_all_small:
  assumes "\<forall>contours. detect_contours cv img = Inr contours \<longrightarrow> (\<forall>c\<in>set contours. too_small cv c)"
  shows "crop_document cv img = img"
proof (cases "crop_try cv img")
  case (Inl e)
  then show ?thesis by (simp add: crop_document_def)
next
  case (Inr out)
  then consider "out = img"
    | contours ordered where "detect_contours cv img = Inr contours"
        "sorted_by_area cv contours = Inr ordered"
        "crop_candidates cv img (take 5 ordered) = Inr out"
    by (auto simp: crop_try_def bind_def split: sum.splits if_splits)
  then have "out = img"
  proof cases
    case 1
    then show ?thesis .
  next
    case 2
    from sorted_by_area_subset [OF 2(2)] assms 2(1)
    have "\<forall>c\<in>set (take 5 ordered). too_small cv c"
      by (auto dest: in_set_takeD)
    from crop_candidates_all_small [OF this 2(3)] show ?thesis .
  qed
  with Inr show ?thesis by (simp add: crop_document_def)
qed

text \<open>
  C9, amended. The crop stage returns the image unchanged or an image of at least
  100x100 pixels. A quadrilateral whose destination rectangle has a side below 100
  pixels is never cropped to; the stage then goes on with the next of the (at most
  five) largest contours, and the image passes through unchanged when every contour
  found is too small.
\<close>

theorem crop_at_least_100:
  "(warp_contract cv \<longrightarrow>
      crop_document cv img = img \<or>
      (100 \<le> cols (crop_document cv img) \<and> 100 \<le> rows (crop_document cv img))) \<and>
   (max_width rect < 100 \<or> max_height rect < 100 \<longrightarrow>
      perspective_transform cv img rect = Inr None) \<and>
   ((\<forall>contours. detect_contours cv img = Inr contours \<longrightarrow> (\<forall>c\<in>set contours. too_small cv c)) \<longrightarrow>
      crop_document cv img = img)"
  using crop_document_result [of cv img] perspective_transform_small [of rect cv img]
    crop_document_all_small [of cv img]
  by blast

lemma sqrt_8100: "sqrt 8100 = 90"
  by (rule real_sqrt_unique) simp_all

lemma sqrt_960400: "sqrt 960400 = 980"
  by (rule real_sqrt_unique) simp_all

lemma sqrt_57600: "sqrt 57600 = 240"
  by (rule real_sqrt_unique) simp_all

lemma sqrt_122500: "sqrt 122500 = 350"
  by (rule real_sqrt_unique) simp_all

lemma order_card_A: "order_points card_A = [(10, 10), (100, 10), (100, 990), (10, 990)]"
  by (simp add: order_points_def card_A_def argmin_def argmax_def)

lemma order_card_B: "order_points card_B = [(150, 10), (390, 10), (390, 360), (150, 360)]"
  by (simp add: order_points_def card_B_def argmin_def argmax_def)

lemma card_A_size: "max_width (order_points card_A) = 90" "max_height (order_points card_A) = 980"
  by (simp_all add: order_card_A max_width_def max_height_def norm2_def sqrt_8100 sqrt_960400)

lemma card_B_size: "max_width (order_points card_B) = 240" "max_height (order_points card_B) = 350"
  by (simp_all add: order_card_B max_width_def max_height_def norm2_def sqrt_57600 sqrt_122500)

lemma card_areas: "shoelace card_A = 88200" "shoelace card_B = 84000"
  by (simp_all add: shoelace_def card_A_def card_B_def)

lemma two_cards_detected:
  "detect_contours (cv_cards found) img = Inr found"
  by (simp add: detect_contours_def cv_cards_def bind_def)

lemma two_cards_sorted:
  "sorted_by_area (cv_cards found) [card_A, card_B] = Inr [card_A, card_B]"
  by (simp add: sorted_by_area_def cv_cards_def bind_def card_areas)

lemma card_A_rejected:
  "perspective_transform (cv_cards found) img (order_points card_A) = Inr None"
  by (rule perspective_transform_small) (simp add: card_A_size)

lemma card_B_accepted:
  "perspective_transform (cv_cards found) img (order_points card_B) =
     Inr (Some \<lparr>rows = 350, cols = 240, pixels = []\<rparr>)"
  by (simp add: perspective_transform_def card_B_size bind_def cv_cards_def)

lemma card_primitives:
  "cv_arcLength (cv_cards found) c = Inr 0"
  "cv_approxPolyDP (cv_cards found) c epsilon = Inr c"
  "cv_contourArea (cv_cards found) c = Inr (shoelace c)"
  by (simp_all add: cv_cards_def)

lemma card_lengths: "length card_A = 4" "length card_B = 4"
  by (simp_all add: card_A_def card_B_def)

lemma two_cards_cropped:
  "crop_document (cv_cards [card_A, card_B]) photo_two_cards =
     \<lparr>rows = 350, cols = 240, pixels = []\<rparr>"
proof -
  have ne: "[card_A, card_B] \<noteq> []" by simp
  have "crop_candidates (cv_cards [card_A, card_B]) photo_two_cards [card_A, card_B] =
      Inr \<lparr>rows = 350, cols = 240, pixels = []\<rparr>"
    by (simp add: card_primitives card_lengths bind_def card_areas card_A_rejected
        card_B_accepted photo_two_cards_def)
  then show ?thesis
    by (simp add: crop_document_def crop_try_def two_cards_detected two_cards_sorted bind_def)
qed

text \<open>
  C9, as the specification states it, fails: in the photo of the two cards the largest
  contour is a quadrilateral that covers more than a fifth of the image and whose
  destination rectangle is 90 pixels wide; its crop is skipped, but the image does not
  pass through unchanged: the loop goes on and crops to the second card.
\<close>

theorem second_candidate_counterexample:
  "detect_contours (cv_cards [card_A, card_B]) photo_two_cards = Inr [card_A, card_B] \<and>
   sorted_by_area (cv_cards [card_A, card_B]) [card_A, card_B] = Inr [card_A, card_B] \<and>
   length card_A = 4 \<and>
   \<not> shoelace card_A / real (rows photo_two_cards * cols photo_two_cards) < 0.2 \<and>
   max_width (order_points card_A) = 90 \<and>
   perspective_transform (cv_cards [card_A, card_B]) photo_two_cards (order_points card_A) =
     Inr None \<and>
   crop_document (cv_cards [card_A, card_B]) photo_two_cards =
     \<lparr>rows = 350, cols = 240, pixels = []\<rparr> \<and>
   crop_document (cv_cards [card_A, card_B]) photo_two_cards \<noteq> photo_two_cards"
  by (simp add: two_cards_detected two_cards_sorted card_lengths card_areas card_A_size
      card_A_rejected two_cards_cropped) (simp add: photo_two_cards_def)

lemma card_A_too_small: "too_small (cv_cards found) card_A"
  by (simp add: too_small_def card_primitives card_A_size)

theorem crop_at_least_100_witness:
  "warp_contract (cv_cards [card_A, card_B]) \<and>
   100 \<le> cols (crop_document (cv_cards [card_A, card_B]) photo_two_cards) \<and>
   100 \<le> rows (crop_document (cv_cards [card_A, card_B]) photo_two_cards) \<and>
   max_width (order_points card_A) < 100 \<and>
   perspective_transform (cv_cards [card_A]) photo_two_cards (order_points card_A) = Inr None \<and>
   detect_contours (cv_cards [card_A]) photo_two_cards = Inr [card_A] \<and>
   too_small (cv_cards [card_A]) card_A \<and>
   crop_document (cv_cards [card_A]) photo_two_cards = photo_two_cards"
proof -
  have ne: "crop_document (cv_cards [card_A, card_B]) photo_two_cards \<noteq> photo_two_cards"
    by (simp add: two_cards_cropped) (simp add: photo_two_cards_def)
  have w: "max_width (order_points card_A) < 100" by (simp add: card_A_size)
  have all: "\<forall>contours. detect_contours (cv_cards [card_A]) photo_two_cards = Inr contours \<longrightarrow>
      (\<forall>c\<in>set contours. too_small (cv_cards [card_A]) c)"
    by (simp add: two_cards_detected card_A_too_small)
  from crop_at_least_100 [of "cv_cards [card_A, card_B]" photo_two_cards "order_points card_A"]
    cards_warp_contract [of "[card_A, card_B]"] ne
  have 1: "100 \<le> cols (crop_document (cv_cards [card_A, card_B]) photo_two_cards) \<and>
      100 \<le> rows (crop_document (cv_cards [card_A, card_B]) photo_two_cards)"
    by blast
  from crop_at_least_100 [of "cv_cards [card_A]" photo_two_cards "order_points card_A"] w all
  have 2: "perspective_transform (cv_cards [card_A]) photo_two_cards (order_points card_A) = Inr None"
    and 3: "crop_document (cv_cards [card_A]) photo_two_cards = photo_two_cards"
    by blast+
  from 1 2 3 w cards_warp_contract [of "[card_A, card_B]"] card_A_too_small [of "[card_A]"]
    two_cards_detected [of "[card_A]" photo_two_cards]
  show ?thesis by blast
qed

end
